theory Spec2Isabelle
  imports Complex_Main "HOL-Library.Multiset"
begin

section \<open>Python exceptions\<close>

text \<open>
  Every exception the modelled functions raise (or let through from a library call) is a
  value of \<open>py_error\<close>; a function that may raise returns \<open>py_error + 'a\<close>,
  with \<open>Inl\<close> for the exception.  The string carried by an exception is its message.
\<close>

datatype py_error =
    IndexError
  | KeyError
  | TypeError
  | AttributeError string
  | ValueError string
  | ZeroDivisionError
  | RequestsHTTPError int
  | RequestsConnectionError
  | URLError
  | FileNotFoundError string
  | OSError
  | ParserError
  | SystemExit int

text \<open>
  The two \<open>except\<close> clauses of the loaders catch by class.  \<open>requests\<close> derives
  \<open>RequestException\<close> (and with it its \<open>HTTPError\<close> and \<open>ConnectionError\<close>) from
  \<open>IOError\<close>, which is \<open>OSError\<close>; \<open>urllib\<close>'s \<open>URLError\<close> and the built-in
  \<open>FileNotFoundError\<close> are \<open>OSError\<close>s too.
\<close>

fun is_RequestException :: "py_error \<Rightarrow> bool" where
  "is_RequestException (RequestsHTTPError c) = True"
| "is_RequestException RequestsConnectionError = True"
| "is_RequestException e = False"

fun is_OSError :: "py_error \<Rightarrow> bool" where
  "is_OSError OSError = True"
| "is_OSError (FileNotFoundError m) = True"
| "is_OSError URLError = True"
| "is_OSError e = is_RequestException e"

text \<open>Python values as far as the modelled functions look at them: \<open>None\<close>, an integer,
  a string, or some other object.\<close>

datatype pyval = PyNone | PyInt int | PyStr string | PyObject string

text \<open>Truthiness, as an \<open>if x:\<close> tests it.\<close>

fun truthy :: "pyval \<Rightarrow> bool" where
  "truthy PyNone = False"
| "truthy (PyInt n) = (n \<noteq> 0)"
| "truthy (PyStr s) = (s \<noteq> [])"
| "truthy (PyObject d) = True"

text \<open>A \<open>dict\<close> with string keys, in insertion order.  \<open>k not in d\<close> is
  \<open>map_of d k = None\<close>; storing under a new key appends.\<close>

type_synonym dict = "(string \<times> pyval) list"

section \<open>getPopulationData.py: get_new_counties\<close>

text \<open>
  The function works on a two-dimensional numpy array.  The array is modelled by its
  number of columns (\<open>shape[1]\<close>, which numpy keeps even when there is no row) and the
  list of its rows.  The caller fills the array with integer values (region keys and
  head counts, all written with \<open>astype(int)\<close>), so the entries are modelled as
  \<open>int\<close>; float64 represents them exactly below \<open>2^53\<close>.
\<close>

record ndarray =
  shape1 :: nat
  rows :: "int list list"

definition wf_ndarray :: "ndarray \<Rightarrow> bool" where
  "wf_ndarray a = (\<forall>r \<in> set (rows a). length r = shape1 a)"

text \<open>\<open>data_temp[:,0]\<close>, the column of region keys.\<close>

definition key_column :: "int list list \<Rightarrow> int list" where
  "key_column d = map (\<lambda>r. r ! 0) d"

text \<open>\<open>np.zeros((m, n))\<close>.\<close>

definition np_zeros :: "nat \<Rightarrow> nat \<Rightarrow> int list list" where
  "np_zeros m n = replicate m (replicate n 0)"

text \<open>\<open>data_temp[r, c] = v\<close>; a negative row index \<open>-k\<close> is passed as \<open>length d - k\<close>.\<close>

definition set_item :: "int list list \<Rightarrow> nat \<Rightarrow> nat \<Rightarrow> int \<Rightarrow> int list list" where
  "set_item d r c v = d[r := (d ! r)[c := v]]"

text \<open>\<open>data_temp[t, 1:] += data_temp[i, 1:]\<close>: column 0 of row \<open>t\<close> stays, the rest is
  added elementwise, in place.\<close>

definition iadd_row :: "int list list \<Rightarrow> nat \<Rightarrow> nat \<Rightarrow> int list list" where
  "iadd_row d t i = d[t := take 1 (d ! t) @ map2 (+) (drop 1 (d ! t)) (drop 1 (d ! i))]"

text \<open>One \<open>if data_temp[i,0] in [...]\<close> block of the loop body: the state is the array
  and the list \<open>to_delete\<close>; \<open>k\<close> is the negative row index of the successor row.\<close>

definition fuse :: "int list \<Rightarrow> nat \<Rightarrow> nat \<Rightarrow> int list list \<times> nat list \<Rightarrow> int list list \<times> nat list" where
  "fuse old_keys k i s =
     (case s of (d, to_delete) \<Rightarrow>
        if d ! i ! 0 \<in> set old_keys
        then (iadd_row d (length d - k) i, to_delete @ [i])
        else (d, to_delete))"

text \<open>The seven blocks of the loop body, in the order of the source.\<close>

definition loop_body :: "nat \<Rightarrow> int list list \<times> nat list \<Rightarrow> int list list \<times> nat list" where
  "loop_body i s =
     fuse [13054, 13060] 1 i
      (fuse [13059, 13062, 13001] 2 i
        (fuse [13006, 13058] 3 i
          (fuse [13061, 13005, 13057] 4 i
            (fuse [13051, 13053] 5 i
              (fuse [13056, 13002, 13055, 13052] 6 i
                (fuse [3152, 3156] 7 i s))))))"

text \<open>\<open>for i in range(len(data_temp[:,0]))\<close>: the range is fixed before the loop.\<close>

definition fuse_loop :: "int list list \<Rightarrow> int list list \<times> nat list" where
  "fuse_loop d = foldl (\<lambda>s i. loop_body i s) (d, []) [0..<length (key_column d)]"

text \<open>\<open>np.delete(d, to_delete, 0)\<close>: the rows whose index is listed are left out.\<close>

definition np_delete :: "'a list \<Rightarrow> nat list \<Rightarrow> 'a list" where
  "np_delete d to_delete = map snd (filter (\<lambda>p. fst p \<notin> set to_delete) (zip [0..<length d] d))"

text \<open>\<open>np.argsort\<close>: the indices in ascending order of their values.  Among equal values
  numpy's default sort promises no order; this model keeps the earlier index first.\<close>

definition np_argsort :: "int list \<Rightarrow> nat list" where
  "np_argsort ks = sort_key (\<lambda>j. ks ! j) [0..<length ks]"

definition get_new_counties :: "ndarray \<Rightarrow> py_error + ndarray" where
  "get_new_counties data_temp =
     (if shape1 data_temp = 0 then Inl IndexError
      else
        let d0 = rows data_temp @ np_zeros 7 (shape1 data_temp);
            d1 = set_item d0 (length d0 - 7) 0 3159;
            d2 = set_item d1 (length d1 - 6) 0 13071;
            d3 = set_item d2 (length d2 - 5) 0 13072;
            d4 = set_item d3 (length d3 - 4) 0 13073;
            d5 = set_item d4 (length d4 - 3) 0 13074;
            d6 = set_item d5 (length d5 - 2) 0 13075;
            d7 = set_item d6 (length d6 - 1) 0 13076;
            (d8, to_delete) = fuse_loop d7;
            d9 = np_delete d8 to_delete;
            sorted_inds = np_argsort (key_column d9)
        in Inr \<lparr>shape1 = shape1 data_temp, rows = map (\<lambda>j. d9 ! j) sorted_inds\<rparr>)"

text \<open>The fixed reconciliation table of the loop body: the keys of the seven successor
  regions, in the order of their rows, and all the predecessor keys.\<close>

definition successor_keys :: "int list" where
  "successor_keys = [3159, 13071, 13072, 13073, 13074, 13075, 13076]"

definition predecessor_keys :: "int list" where
  "predecessor_keys =
     [3152, 3156, 13056, 13002, 13055, 13052, 13051, 13053, 13061, 13005, 13057,
      13006, 13058, 13059, 13062, 13001, 13054, 13060]"

subsection \<open>Auxiliary notions for the proofs about get_new_counties\<close>

text \<open>All rows have \<open>n\<close> entries.\<close>

definition rect :: "nat \<Rightarrow> int list list \<Rightarrow> bool" where
  "rect n d = (\<forall>r \<in> set d. length r = n)"

text \<open>What the loop keeps: the shape of the array and its key column.\<close>

definition loop_inv :: "nat \<Rightarrow> int list \<Rightarrow> int list list \<times> nat list \<Rightarrow> bool" where
  "loop_inv n ks s = (rect n (fst s) \<and> key_column (fst s) = ks)"

text \<open>The blocks of the loop body after the first one, as a table of predecessor keys and
  successor row, and their application in order.\<close>

definition fuse_all :: "(int list \<times> nat) list \<Rightarrow> nat \<Rightarrow> int list list \<times> nat list \<Rightarrow> int list list \<times> nat list" where
  "fuse_all tb i s = foldl (\<lambda>s p. fuse (fst p) (snd p) i s) s tb"

definition fuse_table :: "(int list \<times> nat) list" where
  "fuse_table =
     [([13056, 13002, 13055, 13052], 6), ([13051, 13053], 5), ([13061, 13005, 13057], 4),
      ([13006, 13058], 3), ([13059, 13062, 13001], 2), ([13054, 13060], 1)]"

text \<open>The state after the first \<open>j\<close> rounds of the loop.\<close>

definition run :: "nat \<Rightarrow> int list list \<Rightarrow> int list list \<times> nat list" where
  "run j d = foldl (\<lambda>s i. loop_body i s) (d, []) [0..<j]"

text \<open>The array with the seven successor rows appended, the array after the loop, and the
  rows that \<open>np.delete\<close> keeps.\<close>

definition appended :: "ndarray \<Rightarrow> int list list" where
  "appended a = rows a @ map (\<lambda>k. k # replicate (shape1 a - 1) 0) successor_keys"

definition fused :: "ndarray \<Rightarrow> int list list" where
  "fused a = fst (fuse_loop (appended a))"

definition kept :: "ndarray \<Rightarrow> int list list" where
  "kept a = filter (\<lambda>r. r ! 0 \<notin> set predecessor_keys) (fused a)"

text \<open>A census array of three regions, two of them predecessors of Goettingen.\<close>

definition census_example :: ndarray where
  "census_example = \<lparr>shape1 = 3, rows = [[3156, 5, 8], [1001, 1, 2], [3152, 10, 20]]\<rparr>"

section \<open>getDataIntoPandasDataFrame.py: check_dir and write_dataframe\<close>

subsection \<open>Tables\<close>

text \<open>
  A pandas column is either of dtype \<open>datetime64\<close> (its missing value is \<open>NaT\<close>, here
  \<open>None\<close>) or holds Python objects; a data frame is the list of its named columns.
  Of a column of another dtype only the facts used below matter: its first value is no
  \<open>str\<close>, and it has no \<open>.dt\<close> accessor; \<open>Object\<close> stands for it as well.
\<close>

record datetime =
  year :: nat
  month :: nat
  day :: nat
  second_of_day :: nat

datatype pyobj = OStr string | ONaN | OOther string

datatype column = Datetime64 "datetime option list" | Object "pyobj list"

type_synonym dataframe = "(string \<times> column) list"

text \<open>\<open>strftime('%Y-%m-%d')\<close>: the year in four digits, month and day in two.\<close>

definition digit :: "nat \<Rightarrow> char" where
  "digit n = char_of (48 + n mod 10)"

definition strftime_Ymd :: "datetime \<Rightarrow> string" where
  "strftime_Ymd t =
     [digit (year t div 1000), digit (year t div 100), digit (year t div 10), digit (year t)] @
     ''-'' @ [digit (month t div 10), digit (month t)] @
     ''-'' @ [digit (day t div 10), digit (day t)]"

text \<open>\<open>isinstance(col.values[0], type("string"))\<close>: indexing an empty array raises.\<close>

fun first_value_is_str :: "column \<Rightarrow> py_error + bool" where
  "first_value_is_str (Datetime64 []) = Inl IndexError"
| "first_value_is_str (Datetime64 (t # ts)) = Inr False"
| "first_value_is_str (Object []) = Inl IndexError"
| "first_value_is_str (Object (OStr s # vs)) = Inr True"
| "first_value_is_str (Object (v # vs)) = Inr False"

text \<open>\<open>col.dt.strftime('%Y-%m-%d')\<close>: only a datetime column has the accessor; the
  result is a column of strings, with \<open>NaN\<close> where the date was missing.\<close>

fun dt_strftime :: "column \<Rightarrow> py_error + column" where
  "dt_strftime (Datetime64 ts) =
     Inr (Object (map (\<lambda>t. case t of None \<Rightarrow> ONaN | Some d \<Rightarrow> OStr (strftime_Ymd d)) ts))"
| "dt_strftime (Object vs) =
     Inl (AttributeError ''Can only use .dt accessor with datetimelike values'')"

text \<open>Modelled from the spec: the module \<open>defaultDict\<close> is not among the sources; its
  entry \<open>EngEng['date']\<close> names the \<open>Date\<close> column, the column \<open>df.Date\<close> that the
  spec's Writer coerces.\<close>

definition EngEng_date :: string where
  "EngEng_date = ''Date''"

text \<open>\<open>df.Date = col\<close> on a frame that has the column.\<close>

definition set_column :: "string \<Rightarrow> column \<Rightarrow> dataframe \<Rightarrow> dataframe" where
  "set_column name col df = map (\<lambda>p. if fst p = name then (name, col) else p) df"

text \<open>The date coercion of the \<open>json_timeasstring\<close> branch (the two nested \<open>if\<close>s and
  the assignment), on the caller's frame.\<close>

definition coerce_dates :: "dataframe \<Rightarrow> py_error + dataframe" where
  "coerce_dates df =
     (if EngEng_date \<in> fst ` set df then
        (case map_of df ''Date'' of
           None \<Rightarrow> Inl (AttributeError ''Date'')
         | Some col \<Rightarrow>
             (case first_value_is_str col of
                Inl e \<Rightarrow> Inl e
              | Inr True \<Rightarrow> Inr df
              | Inr False \<Rightarrow>
                  (case dt_strftime col of
                     Inl e \<Rightarrow> Inl e
                   | Inr col' \<Rightarrow> Inr (set_column ''Date'' col' df))))
      else Inr df)"

subsection \<open>The file system\<close>

text \<open>
  A path is the list of its components below the working directory, which is the empty
  path and always exists; \<open>os.path.join(directory, name)\<close> appends a component.  The file
  system is the list of its directories and the list of its files with their contents.  A
  file holds a table as pandas serialised it: the format, the options and the frame.
\<close>

type_synonym path = "string list"

datatype artifact =
    Json dict dataframe
  | Hdf dict dataframe
  | Csv dict dataframe

record filesystem =
  dirs :: "path list"
  files :: "(path \<times> artifact) list"

definition is_dir :: "filesystem \<Rightarrow> path \<Rightarrow> bool" where
  "is_dir fs p = (p = [] \<or> p \<in> set (dirs fs))"

definition is_file :: "filesystem \<Rightarrow> path \<Rightarrow> bool" where
  "is_file fs p = (p \<in> fst ` set (files fs))"

text \<open>\<open>os.path.exists\<close>.\<close>

definition path_exists :: "filesystem \<Rightarrow> path \<Rightarrow> bool" where
  "path_exists fs p = (is_dir fs p \<or> is_file fs p)"

definition path_join :: "path \<Rightarrow> string \<Rightarrow> path" where
  "path_join directory name = directory @ [name]"

text \<open>The path itself and the directories above it, the shortest first.\<close>

definition ancestors :: "path \<Rightarrow> path list" where
  "ancestors p = map (\<lambda>k. take k p) [1..<Suc (length p)]"

text \<open>\<open>os.makedirs\<close>: creates the directory and every missing one above it; it fails
  when the directory exists already or a component is a regular file.\<close>

definition os_makedirs :: "filesystem \<Rightarrow> path \<Rightarrow> py_error + filesystem" where
  "os_makedirs fs p =
     (if path_exists fs p \<or> (\<exists>q \<in> set (ancestors p). is_file fs q) then Inl OSError
      else Inr (fs\<lparr>dirs := dirs fs @ filter (\<lambda>q. q \<notin> set (dirs fs)) (ancestors p)\<rparr>))"

text \<open>Opening a path for writing and storing the contents: the directory of the file
  must exist, and the path must not be a directory.  An existing file is overwritten.\<close>

definition write_file :: "filesystem \<Rightarrow> path \<Rightarrow> artifact \<Rightarrow> py_error + filesystem" where
  "write_file fs p c =
     (if p \<noteq> [] \<and> is_dir fs (butlast p) \<and> \<not> is_dir fs p
      then Inr (fs\<lparr>files := (p, c) # filter (\<lambda>f. fst f \<noteq> p) (files fs)\<rparr>)
      else Inl OSError)"

subsection \<open>check_dir\<close>

definition check_dir :: "filesystem \<Rightarrow> path \<Rightarrow> py_error + filesystem" where
  "check_dir fs directory =
     (if \<not> path_exists fs directory then os_makedirs fs directory else Inr fs)"

subsection \<open>write_dataframe\<close>

text \<open>The dictionary \<open>outForm\<close>: the file ending and the writer options of each format.\<close>

definition outForm :: "dict \<Rightarrow> (string \<times> string \<times> dict) list" where
  "outForm param_dict =
     [(''json'', ''.json'', [(''orient'', PyStr ''records'')]),
      (''json_timeasstring'', ''.json'', [(''orient'', PyStr ''records'')]),
      (''hdf5'', ''.h5'', [(''key'', PyStr ''data'')]),
      (''txt'', ''.txt'', param_dict)]"

text \<open>
  The function returns nothing; its effects are the file it writes and, in the
  \<open>json_timeasstring\<close> branch, the assignment to the caller's frame.  The model returns
  the frame as the call leaves it, or the exception, and the file system after the call.
\<close>

definition write_dataframe ::
  "filesystem \<Rightarrow> dataframe \<Rightarrow> path \<Rightarrow> string \<Rightarrow> string \<Rightarrow> dict \<Rightarrow> (py_error + dataframe) \<times> filesystem" where
  "write_dataframe fs df directory file_prefix file_type param_dict =
     (case map_of (outForm param_dict) file_type of
        None \<Rightarrow>
          (Inl (ValueError (''Error: The file format: '' @ file_type @
                  '' does not exist. Use json, json_timeasstring, hdf5 or txt.'')), fs)
      | Some (outFormEnd, outFormSpec) \<Rightarrow>
          (let out_path = path_join directory (file_prefix @ outFormEnd) in
           if file_type = ''json'' then
             (case write_file fs out_path (Json outFormSpec df) of
                Inl e \<Rightarrow> (Inl e, fs) | Inr fs' \<Rightarrow> (Inr df, fs'))
           else if file_type = ''json_timeasstring'' then
             (case coerce_dates df of
                Inl e \<Rightarrow> (Inl e, fs)
              | Inr df' \<Rightarrow>
                  (case write_file fs out_path (Json outFormSpec df') of
                     Inl e \<Rightarrow> (Inl e, fs) | Inr fs' \<Rightarrow> (Inr df', fs')))
           else if file_type = ''hdf5'' then
             (case write_file fs out_path (Hdf outFormSpec df) of
                Inl e \<Rightarrow> (Inl e, fs) | Inr fs' \<Rightarrow> (Inr df, fs'))
           else if file_type = ''txt'' then
             (case write_file fs out_path (Csv outFormSpec df) of
                Inl e \<Rightarrow> (Inl e, fs) | Inr fs' \<Rightarrow> (Inr df, fs'))
           else (Inr df, fs)))"

text \<open>The formats \<open>write_dataframe\<close> knows.\<close>

definition supported_formats :: "string set" where
  "supported_formats = {''json'', ''json_timeasstring'', ''hdf5'', ''txt''}"

text \<open>Example data for the closed statements below.\<close>

definition fs_empty :: filesystem where
  "fs_empty = \<lparr>dirs = [], files = []\<rparr>"

definition df_cases :: dataframe where
  "df_cases = [(''Date'', Datetime64 [Some \<lparr>year = 2020, month = 4, day = 24, second_of_day = 0\<rparr>]),
               (''Confirmed'', Object [OOther ''17''])]"

definition df_no_rows :: dataframe where
  "df_no_rows = [(''Date'', Object []), (''Confirmed'', Object [])]"

section \<open>getDataIntoPandasDataFrame.py: download_file and loadCsv\<close>

subsection \<open>The network and pandas, as the functions see them\<close>

text \<open>
  A response of \<open>requests.get\<close>: its status code, its content-length header (absent,
  the integer that \<open>int\<close> reads from it, or text that \<open>int\<close> rejects) and the chunks
  that \<open>iter_content\<close> yields for a chunk size (\<open>None\<close> lets the server choose).  Bytes
  are a \<open>string\<close>.
\<close>

datatype header = NoHeader | IntHeader int | BadHeader

record response =
  status_code :: int
  content_length :: header
  iter_content :: "int option \<Rightarrow> string list"

datatype buffer = BytesIO string | StringIO string

text \<open>
  What lies outside the repository is a parameter of the model: the answer of
  \<open>requests.get\<close> for a URL (a response, or the exception raised), \<open>str(bytes, encoding)\<close>,
  and \<open>pandas.read_csv\<close> on a buffer and on a URL, with the keyword arguments.
\<close>

record world =
  requests_get :: "string \<Rightarrow> py_error + response"
  str_decode :: "string \<Rightarrow> string \<Rightarrow> py_error + string"
  read_csv_buffer :: "buffer \<Rightarrow> dict \<Rightarrow> py_error + dataframe"
  read_csv_url :: "string \<Rightarrow> dict \<Rightarrow> py_error + dataframe"

subsection \<open>download_file\<close>

text \<open>\<open>req.iter_content(chunk_size=chunk_size)\<close>: requests raises \<open>TypeError\<close> for a chunk
  size that is neither \<open>None\<close> nor an integer.\<close>

fun iter_chunks :: "response \<Rightarrow> pyval \<Rightarrow> py_error + string list" where
  "iter_chunks req PyNone = Inr (iter_content req None)"
| "iter_chunks req (PyInt c) = Inr (iter_content req (Some c))"
| "iter_chunks req v = Inl TypeError"

text \<open>
  The loop over the chunks when a progress function is given.  The progress function acts
  on a state \<open>'s\<close> of its own; the state is returned also when the loop raises.  The
  sum \<open>progress+chunk_size\<close> raises \<open>TypeError\<close> unless \<open>chunk_size\<close> is an integer, and
  the quotient \<open>progress/file_size\<close> raises \<open>ZeroDivisionError\<close> for a zero
  content-length; the quotient of two integers is modelled as a rational number.
\<close>

fun progress_loop ::
  "pyval \<Rightarrow> int \<Rightarrow> (rat \<Rightarrow> 's \<Rightarrow> 's) \<Rightarrow> string list \<Rightarrow> string \<Rightarrow> int \<Rightarrow> 's \<Rightarrow> (py_error + string) \<times> 's" where
  "progress_loop chunk_size file_size progress_function [] file progress st = (Inr file, st)"
| "progress_loop chunk_size file_size progress_function (chunk # chunks) file progress st =
     (case chunk_size of
        PyInt c \<Rightarrow>
          (let progress' = min (progress + c) file_size in
           if file_size = 0 then (Inl ZeroDivisionError, st)
           else progress_loop chunk_size file_size progress_function chunks (file @ chunk) progress'
                  (progress_function (of_int progress' / of_int file_size) st))
      | _ \<Rightarrow> (Inl TypeError, st))"

text \<open>\<open>str(file, encoding=encoding)\<close> under \<open>if encoding:\<close>.\<close>

definition as_file_object :: "world \<Rightarrow> pyval \<Rightarrow> string \<Rightarrow> py_error + buffer" where
  "as_file_object w encoding file =
     (if truthy encoding then
        (case encoding of
           PyStr enc \<Rightarrow>
             (case str_decode w file enc of Inl e \<Rightarrow> Inl e | Inr s \<Rightarrow> Inr (StringIO s))
         | _ \<Rightarrow> Inl TypeError)
      else Inr (BytesIO file))"

text \<open>The parameters are those of the source, in its order; \<open>progress_function\<close> is
  \<open>None\<close> or a function, and \<open>st\<close> is the state this function acts on.\<close>

definition download_file ::
  "world \<Rightarrow> string \<Rightarrow> pyval \<Rightarrow> pyval \<Rightarrow> pyval \<Rightarrow> (rat \<Rightarrow> 's \<Rightarrow> 's) option \<Rightarrow> 's \<Rightarrow> (py_error + buffer) \<times> 's" where
  "download_file w url encoding chunk_size timeout progress_function st =
     (case requests_get w url of
        Inl e \<Rightarrow> (Inl e, st)
      | Inr req \<Rightarrow>
          if status_code req \<noteq> 200 then (Inl (RequestsHTTPError (status_code req)), st)
          else
            (case content_length req of
               NoHeader \<Rightarrow> (Inl TypeError, st)
             | BadHeader \<Rightarrow> (Inl (ValueError ''invalid literal for int()''), st)
             | IntHeader file_size \<Rightarrow>
                 (case
                    (case progress_function of
                       Some f \<Rightarrow>
                         (case iter_chunks req chunk_size of
                            Inl e \<Rightarrow> (Inl e, st)
                          | Inr chunks \<Rightarrow> progress_loop chunk_size file_size f chunks [] 0 st)
                     | None \<Rightarrow> (Inr (concat (iter_content req None)), st))
                  of
                    (Inl e, st') \<Rightarrow> (Inl e, st')
                  | (Inr file, st') \<Rightarrow> (as_file_object w encoding file, st'))))"

text \<open>A progress function that records the values it is called with, in order.\<close>

definition record_progress :: "rat \<Rightarrow> rat list \<Rightarrow> rat list" where
  "record_progress v trace = trace @ [v]"

text \<open>The values passed to the progress function by one call of \<open>download_file\<close>.\<close>

definition progress_values :: "world \<Rightarrow> string \<Rightarrow> pyval \<Rightarrow> pyval \<Rightarrow> pyval \<Rightarrow> rat list" where
  "progress_values w url encoding chunk_size timeout =
     snd (download_file w url encoding chunk_size timeout (Some record_progress) [])"

text \<open>
  The spec's formula for the value after the \<open>k\<close>-th chunk, in its words: the bytes read
  so far, capped by the content length, over the content length.
\<close>

definition spec_progress :: "string list \<Rightarrow> int \<Rightarrow> rat list" where
  "spec_progress chunks file_size =
     map (\<lambda>k. of_int (min (int (length (concat (take k chunks)))) file_size) / of_int file_size)
       [1..<Suc (length chunks)]"

subsection \<open>loadCsv\<close>

text \<open>The loop \<open>for k in param_dict_default: if k not in param_dict: param_dict[k] = ...\<close>.\<close>

definition fill_defaults :: "dict \<Rightarrow> dict \<Rightarrow> dict" where
  "fill_defaults param_dict param_dict_default =
     foldl (\<lambda>d kv. if map_of d (fst kv) = None then d @ [kv] else d) param_dict param_dict_default"

text \<open>
  The default value \<open>{}\<close> of \<open>param_dict\<close> is one object, made when the function is
  defined and shared by all calls that omit the argument; the loop above writes into it.
  This object is the state \<open>shared\<close> of the model, empty when the module is loaded.  The
  argument \<open>param_dict\<close> is \<open>None\<close> when the caller omits it and the caller's dictionary
  otherwise.  The result is what the function returns or raises, the dictionary the call used
  (as the call leaves it), and the shared default object after the call.

  Modelled from the spec: the module \<open>progress_indicator\<close> is not among the sources; its
  \<open>Percentage\<close> is the spec's progress reporting of the download, a display that takes the
  fractions and has no part in the result.  Here it records them.
\<close>

definition loadCsv ::
  "world \<Rightarrow> dict \<Rightarrow> string \<Rightarrow> string \<Rightarrow> string \<Rightarrow> dict option \<Rightarrow> pyval \<Rightarrow> (py_error + dataframe) \<times> dict \<times> dict" where
  "loadCsv w shared targetFileName apiUrl extension param_dict encoding =
     (let url = apiUrl @ targetFileName @ extension;
          param_dict_default =
            [(''sep'', PyStr '',''), (''header'', PyInt 0), (''encoding'', encoding), (''dtype'', PyNone)];
          pd = fill_defaults (case param_dict of None \<Rightarrow> shared | Some d \<Rightarrow> d) param_dict_default;
          shared' = (case param_dict of None \<Rightarrow> pd | Some d \<Rightarrow> shared);
          tracked =
            (case map_of pd ''encoding'' of
               None \<Rightarrow> Inl KeyError
             | Some enc \<Rightarrow>
                 (case fst (download_file w url (PyInt 1024) enc PyNone (Some record_progress) []) of
                    Inl e \<Rightarrow> Inl e
                  | Inr file \<Rightarrow> read_csv_buffer w file pd));
          df =
            (case tracked of
               Inl e \<Rightarrow> if is_RequestException e then read_csv_url w url pd else Inl e
             | Inr df \<Rightarrow> Inr df)
      in ((case df of
             Inl e \<Rightarrow>
               if is_OSError e
               then Inl (FileNotFoundError (''ERROR: URL '' @ url @ '' could not be opened.''))
               else Inl e
           | Inr df \<Rightarrow> Inr df),
          pd, shared'))"

text \<open>The default API URL and extension of \<open>loadCsv\<close>.\<close>

definition arcgis :: string where
  "arcgis = ''https://opendata.arcgis.com/datasets/''"

text \<open>Example servers for the closed statements below: one that answers every URL with
  status 200 and a content-length of 40, a compressed body that \<open>iter_content\<close> decodes
  into a chunk of 48 bytes and one of 16 bytes, and one that cannot be reached.
  \<open>read_csv\<close> of the second returns a frame that shows the encoding it was called with.\<close>

definition gzip_response :: response where
  "gzip_response = \<lparr>status_code = 200, content_length = IntHeader 40,
     iter_content = (\<lambda>c. [replicate 48 (CHR ''x''), replicate 16 (CHR ''x'')])\<rparr>"

definition world_ok :: world where
  "world_ok = \<lparr>requests_get = (\<lambda>url. Inr gzip_response),
     str_decode = (\<lambda>file enc. Inr file),
     read_csv_buffer = (\<lambda>file pd. Inr []),
     read_csv_url = (\<lambda>url pd. Inr [])\<rparr>"

definition world_fallback :: world where
  "world_fallback = \<lparr>requests_get = (\<lambda>url. Inl RequestsConnectionError),
     str_decode = (\<lambda>file enc. Inr file),
     read_csv_buffer = (\<lambda>file pd. Inr []),
     read_csv_url = (\<lambda>url pd.
       Inr [(''encoding'', Object [case map_of pd ''encoding'' of
                                    Some (PyStr e) \<Rightarrow> OStr e | _ \<Rightarrow> OOther ''None''])])\<rparr>"

section \<open>cleanData.py\<close>

subsection \<open>The file system calls of clean_data\<close>

text \<open>\<open>item.endswith(suffix)\<close> and \<open>sub in item\<close> on strings.\<close>

definition endswith :: "string \<Rightarrow> string \<Rightarrow> bool" where
  "endswith s suffix = (length suffix \<le> length s \<and> drop (length s - length suffix) s = suffix)"

definition contains :: "string \<Rightarrow> string \<Rightarrow> bool" where
  "contains sub s = list_ex (\<lambda>i. take (length sub) (drop i s) = sub) [0..<Suc (length s)]"

text \<open>\<open>os.listdir\<close>: the names of the files and directories in a directory.\<close>

definition os_listdir :: "filesystem \<Rightarrow> path \<Rightarrow> py_error + string list" where
  "os_listdir fs d =
     (if is_dir fs d then
        Inr (map last (filter (\<lambda>p. p \<noteq> [] \<and> butlast p = d) (dirs fs @ map fst (files fs))))
      else if is_file fs d then Inl OSError
      else Inl (FileNotFoundError ''No such file or directory''))"

definition os_remove :: "filesystem \<Rightarrow> path \<Rightarrow> py_error + filesystem" where
  "os_remove fs p =
     (if is_file fs p then Inr (fs\<lparr>files := filter (\<lambda>f. fst f \<noteq> p) (files fs)\<rparr>)
      else if is_dir fs p then Inl OSError
      else Inl (FileNotFoundError ''No such file or directory''))"

text \<open>\<open>os.rmdir\<close> removes an empty directory only.\<close>

definition os_rmdir :: "filesystem \<Rightarrow> path \<Rightarrow> py_error + filesystem" where
  "os_rmdir fs d =
     (if d \<in> set (dirs fs) \<and> os_listdir fs d = Inr []
      then Inr (fs\<lparr>dirs := filter (\<lambda>q. q \<noteq> d) (dirs fs)\<rparr>)
      else Inl OSError)"

subsection \<open>clean_data\<close>

text \<open>
  The exceptions that \<open>clean_data\<close> does not catch end the function; the file system
  keeps what was deleted before.  A step of the function takes the file system and gives
  the exception, if any, and the file system after it.  Printing is left out.
\<close>

type_synonym step = "filesystem \<Rightarrow> py_error option \<times> filesystem"

definition and_then :: "step \<Rightarrow> step \<Rightarrow> step" where
  "and_then a b fs = (case a fs of (Some e, fs') \<Rightarrow> (Some e, fs') | (None, fs') \<Rightarrow> b fs')"

definition skip :: step where
  "skip fs = (None, fs)"

text \<open>\<open>for item in files: if wanted(item): os.remove(os.path.join(directory, item))\<close>.\<close>

fun remove_items :: "(string \<Rightarrow> bool) \<Rightarrow> path \<Rightarrow> string list \<Rightarrow> step" where
  "remove_items wanted directory [] fs = (None, fs)"
| "remove_items wanted directory (item # items) fs =
     (if wanted item then
        (case os_remove fs (path_join directory item) of
           Inl e \<Rightarrow> (Some e, fs)
         | Inr fs' \<Rightarrow> remove_items wanted directory items fs')
      else remove_items wanted directory items fs)"

text \<open>\<open>try: os.rmdir(directory) except OSError: pass\<close> (or \<open>continue\<close>, at the end of
  a loop body).\<close>

definition try_rmdir :: "path \<Rightarrow> step" where
  "try_rmdir directory fs =
     (case os_rmdir fs directory of Inl e \<Rightarrow> (None, fs) | Inr fs' \<Rightarrow> (None, fs'))"

text \<open>The body of the loops over the country directories: a directory that is not found is
  skipped, any other exception of \<open>os.listdir\<close> is raised.\<close>

definition clean_directory :: "(string \<Rightarrow> bool) \<Rightarrow> path \<Rightarrow> step" where
  "clean_directory wanted directory fs =
     (case os_listdir fs directory of
        Inl (FileNotFoundError m) \<Rightarrow> (None, fs)
      | Inl e \<Rightarrow> (Some e, fs)
      | Inr items \<Rightarrow> and_then (remove_items wanted directory items) (try_rmdir directory) fs)"

text \<open>\<open>files = []; try: files = os.listdir(out_path) except FileNotFoundError: pass\<close>
  and the loop over \<open>files\<close> that follows, without \<open>rmdir\<close>.\<close>

definition clean_files :: "(string \<Rightarrow> bool) \<Rightarrow> path \<Rightarrow> step" where
  "clean_files wanted directory fs =
     (case os_listdir fs directory of
        Inl (FileNotFoundError m) \<Rightarrow> (None, fs)
      | Inl e \<Rightarrow> (Some e, fs)
      | Inr items \<Rightarrow> remove_items wanted directory items fs)"

definition for_each :: "'a list \<Rightarrow> ('a \<Rightarrow> step) \<Rightarrow> step" where
  "for_each xs body = foldr (\<lambda>x rest. and_then (body x) rest) xs skip"

definition run_if :: "bool \<Rightarrow> step \<Rightarrow> step" where
  "run_if b s = (if b then s else skip)"

definition country_directories :: "string list" where
  "country_directories = [''Germany'', ''Spain'', ''France'', ''Italy'', ''US'', ''SouthKorea'', ''China'']"

definition clean_data ::
  "pyval \<Rightarrow> pyval \<Rightarrow> pyval \<Rightarrow> pyval \<Rightarrow> pyval \<Rightarrow> pyval \<Rightarrow> path \<Rightarrow> step" where
  "clean_data all_data rki john_hopkins spain population hdf5 out_path =
     (let ending = (if truthy hdf5 then ''h5'' else ''json'') in
      if truthy all_data then
        and_then
          (for_each country_directories (\<lambda>cdir.
             clean_directory (\<lambda>item. endswith item ''.json'' \<or> endswith item ''.h5'')
               (path_join out_path cdir)))
          (clean_files (\<lambda>item. endswith item ''.json'' \<or> endswith item ''.h5'') out_path)
      else if truthy rki \<or> truthy john_hopkins \<or> truthy spain \<or> truthy population then
        and_then
          (run_if (truthy rki)
             (and_then
                (clean_files (\<lambda>item. endswith item ending \<and>
                    (contains ''_rki'' item \<or> contains ''RKI'' item)) (path_join out_path ''Germany''))
                (try_rmdir (path_join out_path ''Germany''))))
       (and_then
          (run_if (truthy population)
             (and_then
                (clean_files (\<lambda>item. endswith item ending \<and>
                    (contains ''Popul'' item \<or> contains ''FullDataB'' item \<or>
                     contains ''FullDataL'' item)) (path_join out_path ''Germany''))
                (try_rmdir (path_join out_path ''Germany''))))
       (and_then
          (run_if (truthy spain)
             (and_then
                (clean_files (\<lambda>item. endswith item ending \<and> contains ''spain'' item)
                   (path_join out_path ''Spain''))
                (try_rmdir (path_join out_path ''Spain''))))
          (run_if (truthy john_hopkins)
             (and_then
                (for_each country_directories (\<lambda>cdir.
                   clean_directory (\<lambda>item. endswith item ending \<and> contains ''_jh'' item)
                     (path_join out_path cdir)))
                (clean_files (\<lambda>item. endswith item ending \<and>
                    (contains ''_jh'' item \<or> contains ''JohnHopkins'' item)) out_path)))))
      else skip)"

subsection \<open>cli and main\<close>

text \<open>
  An argument of the parser: its option strings, whether it takes a value (otherwise its
  action is \<open>store_true\<close>) and its default.  The attribute of the namespace that holds
  the argument is derived by \<open>argparse\<close> from the first long option string: the leading
  dashes are dropped and the other dashes become underscores.  \<open>True\<close> and \<open>False\<close> are
  the integers 1 and 0.
\<close>

record argument =
  option_strings :: "string list"
  takes_value :: bool
  default_value :: pyval

definition dest :: "argument \<Rightarrow> string" where
  "dest a =
     (let long = filter (\<lambda>s. take 2 s = ''--'') (option_strings a);
          name = (case long of l # ls \<Rightarrow> l | [] \<Rightarrow> hd (option_strings a))
      in map (\<lambda>c. if c = CHR ''-'' then CHR ''_'' else c) (dropWhile (\<lambda>c. c = CHR ''-'') name))"

definition store_true :: "string list \<Rightarrow> argument" where
  "store_true opts = \<lparr>option_strings = opts, takes_value = False, default_value = PyInt 0\<rparr>"

text \<open>The calls of \<open>add_argument\<close> in \<open>cli\<close>, in their order.  The default output folder
  comes from the module \<open>defaultDict\<close>, which is not among the sources, and is a parameter.\<close>

definition cli_arguments :: "string \<Rightarrow> argument list" where
  "cli_arguments out_path_default =
     [store_true [''-a'', ''--all''],
      store_true [''-r'', ''--rki''],
      store_true [''-j'', ''--john-hopkins''],
      store_true [''-s'', ''--spain''],
      store_true [''-p'', ''--population''],
      store_true [''-h5'', ''--hdf5''],
      \<lparr>option_strings = [''-o'', ''--out_path''], takes_value = True,
        default_value = PyStr out_path_default\<rparr>]"

definition set_attr :: "string \<Rightarrow> pyval \<Rightarrow> dict \<Rightarrow> dict" where
  "set_attr name v ns = map (\<lambda>p. if fst p = name then (name, v) else p) ns"

text \<open>
  \<open>parse_args\<close> on the command line: an option string sets its attribute, \<open>-h\<close> and
  \<open>--help\<close> print the help and exit with status 0, anything the parser does not know
  exits with status 2.  The abbreviations and the \<open>--option=value\<close> spelling that
  \<open>argparse\<close> also accepts are left out; they change which command lines are accepted,
  not the attributes of the namespace.
\<close>

fun parse :: "argument list \<Rightarrow> string list \<Rightarrow> dict \<Rightarrow> py_error + dict" where
  "parse specs [] ns = Inr ns"
| "parse specs [tok] ns =
     (if tok = ''-h'' \<or> tok = ''--help'' then Inl (SystemExit 0)
      else
        (case find (\<lambda>a. tok \<in> set (option_strings a)) specs of
           None \<Rightarrow> Inl (SystemExit 2)
         | Some a \<Rightarrow>
             if takes_value a then Inl (SystemExit 2)
             else Inr (set_attr (dest a) (PyInt 1) ns)))"
| "parse specs (tok # v # rest) ns =
     (if tok = ''-h'' \<or> tok = ''--help'' then Inl (SystemExit 0)
      else
        (case find (\<lambda>a. tok \<in> set (option_strings a)) specs of
           None \<Rightarrow> Inl (SystemExit 2)
         | Some a \<Rightarrow>
             if takes_value a then
               (if take 1 v = ''-'' \<and> v \<noteq> ''-'' then Inl (SystemExit 2)
                else parse specs rest (set_attr (dest a) (PyStr v) ns))
             else parse specs (v # rest) (set_attr (dest a) (PyInt 1) ns)))"

definition parse_args :: "argument list \<Rightarrow> string list \<Rightarrow> py_error + dict" where
  "parse_args specs argv = parse specs argv (map (\<lambda>a. (dest a, default_value a)) specs)"

text \<open>\<open>args.name\<close> on a namespace.\<close>

definition getattr :: "dict \<Rightarrow> string \<Rightarrow> py_error + pyval" where
  "getattr ns name =
     (case map_of ns name of None \<Rightarrow> Inl (AttributeError name) | Some v \<Rightarrow> Inr v)"

text \<open>The list display \<open>[args.a, args.b, ...]\<close>, evaluated from left to right.\<close>

fun getattrs :: "dict \<Rightarrow> string list \<Rightarrow> py_error + pyval list" where
  "getattrs ns [] = Inr []"
| "getattrs ns (name # names) =
     (case getattr ns name of
        Inl e \<Rightarrow> Inl e
      | Inr v \<Rightarrow> (case getattrs ns names of Inl e \<Rightarrow> Inl e | Inr vs \<Rightarrow> Inr (v # vs)))"

definition cli :: "string \<Rightarrow> string list \<Rightarrow> py_error + pyval list" where
  "cli out_path_default argv =
     (case parse_args (cli_arguments out_path_default) argv of
        Inl e \<Rightarrow> Inl e
      | Inr args \<Rightarrow>
          getattrs args [''all_data'', ''rki'', ''john_hopkins'', ''spain'', ''population'',
                         ''hdf5'', ''out_path''])"

text \<open>An output path given on the command line, split at the slashes.\<close>

fun split_path :: "string \<Rightarrow> string \<Rightarrow> path" where
  "split_path acc [] = (if acc = [] then [] else [acc])"
| "split_path acc (c # cs) =
     (if c = CHR ''/'' then (if acc = [] then [] else [acc]) @ split_path [] cs
      else split_path (acc @ [c]) cs)"

definition main :: "string \<Rightarrow> string list \<Rightarrow> step" where
  "main out_path_default argv fs =
     (case cli out_path_default argv of
        Inl e \<Rightarrow> (Some e, fs)
      | Inr [all_data, rki, john_hopkins, spain, population, hdf5, PyStr out_path] \<Rightarrow>
          clean_data all_data rki john_hopkins spain population hdf5 (split_path [] out_path) fs
      | Inr vs \<Rightarrow> (Some (ValueError ''unpack''), fs))"

text \<open>The output tree of the spec's cleanup example.\<close>

definition fs_cleanup :: filesystem where
  "fs_cleanup = \<lparr>dirs = [[''data''], [''data'', ''Germany'']],
     files = [([''data'', ''Germany'', ''123_rki.json''], Json [] []),
              ([''data'', ''Germany'', ''other.json''], Json [] [])]\<rparr>"

section \<open>getPopulationData.py: the rescaling step of get_age_population_data\<close>

text \<open>
  The step after \<open>get_new_counties\<close>: the ratio of current and census population of every
  region, and the table scaled by it.  Here the array holds float64 values, and the step
  divides, multiplies and rounds them.  The float64 operations of numpy are a parameter of
  the model, so that what is proved holds for whatever they compute: the constant \<open>1.0\<close>,
  the constant \<open>0.0\<close>, division and multiplication (which do not raise in numpy),
  \<open>np.round\<close>, \<open>astype(int)\<close>, and the float64 that a Python integer is compared as.
\<close>

record 'f numpy =
  np_one :: 'f
  np_zero :: 'f
  np_divide :: "'f \<Rightarrow> 'f \<Rightarrow> 'f"
  np_multiply :: "'f \<Rightarrow> 'f \<Rightarrow> 'f"
  np_round :: "'f \<Rightarrow> 'f"
  astype_int :: "'f \<Rightarrow> int"
  np_float :: "int \<Rightarrow> 'f"

text \<open>
  A row of the reference table \<open>counties\<close>: the cell of the column \<open>Schluessel-nummer\<close>
  is null, or \<open>int\<close> reads a key from it, or \<open>int\<close> raises \<open>ValueError\<close> on it (text);
  the cell of the population column is a float.
\<close>

datatype key_cell = Null | Key int | Text

record 'f county =
  schluesselnummer :: key_cell
  bevoelkerung :: 'f

text \<open>The inner loop over the reference rows for one region row, carrying \<open>ratio[i]\<close>.\<close>

fun ratio_row :: "'f numpy \<Rightarrow> 'f list \<Rightarrow> 'f county list \<Rightarrow> 'f \<Rightarrow> py_error + 'f" where
  "ratio_row np row [] r = Inr r"
| "ratio_row np row (c # cs) r =
     (case schluesselnummer c of
        Null \<Rightarrow> ratio_row np row cs r
      | Text \<Rightarrow> Inl (ValueError ''invalid literal for int()'')
      | Key k \<Rightarrow>
          if row ! 0 = np_float np k
          then ratio_row np row cs (np_divide np (bevoelkerung c) (row ! 1))
          else ratio_row np row cs r)"

text \<open>The outer loop; \<open>ratio\<close> starts as \<open>np.ones\<close>.  The reference rows are those of
  \<open>range(len(counties)-11)\<close>.\<close>

fun ratio_loop :: "'f numpy \<Rightarrow> 'f list list \<Rightarrow> 'f county list \<Rightarrow> py_error + 'f list" where
  "ratio_loop np [] cs = Inr []"
| "ratio_loop np (row # data) cs =
     (case ratio_row np row cs (np_one np) of
        Inl e \<Rightarrow> Inl e
      | Inr r \<Rightarrow>
          (case ratio_loop np data cs of Inl e \<Rightarrow> Inl e | Inr rs \<Rightarrow> Inr (r # rs)))"

text \<open>\<open>m[:, j]\<close> and \<open>m[:, j] = vs\<close>.\<close>

definition get_column :: "'a list list \<Rightarrow> nat \<Rightarrow> 'a list" where
  "get_column m j = map (\<lambda>row. row ! j) m"

definition set_column_values :: "'a list list \<Rightarrow> nat \<Rightarrow> 'a list \<Rightarrow> 'a list list" where
  "set_column_values m j vs = map2 (\<lambda>row v. row[j := v]) m vs"

text \<open>\<open>data_current\<close>: zeros of the shape of \<open>data\<close>, the key column copied, and every
  other column the product of the column of \<open>data\<close> and \<open>ratio\<close>.\<close>

definition scale_columns :: "'f numpy \<Rightarrow> 'f list list \<Rightarrow> 'f list \<Rightarrow> 'f list list" where
  "scale_columns np data ratio =
     foldl (\<lambda>data_current i.
              set_column_values data_current (i + 1)
                (map2 (np_multiply np) (get_column data (i + 1)) ratio))
       (set_column_values (replicate (length data) (replicate (length (data ! 0)) (np_zero np)))
          0 (get_column data 0))
       [0..<length (data ! 0) - 1]"

text \<open>
  The step returns the two tables that are written: \<open>data.astype(int)\<close> and
  \<open>np.round(data_current).astype(int)\<close>.  \<open>data[0, :]\<close> raises on an array without rows.
\<close>

definition rescale ::
  "'f numpy \<Rightarrow> 'f list list \<Rightarrow> 'f county list \<Rightarrow> py_error + (int list list \<times> int list list)" where
  "rescale np data counties =
     (case ratio_loop np data (take (length counties - 11) counties) of
        Inl e \<Rightarrow> Inl e
      | Inr ratio \<Rightarrow>
          if data = [] then Inl IndexError
          else Inr (map (map (astype_int np)) data,
                    map (map (\<lambda>x. astype_int np (np_round np x))) (scale_columns np data ratio)))"

text \<open>Whether a region row has a matching row in the reference table, as the loop tests it.\<close>

definition matched :: "'f numpy \<Rightarrow> 'f list \<Rightarrow> 'f county list \<Rightarrow> bool" where
  "matched np row counties =
     list_ex (\<lambda>c. case schluesselnummer c of Key k \<Rightarrow> row ! 0 = np_float np k | _ \<Rightarrow> False)
       (take (length counties - 11) counties)"

text \<open>Exact arithmetic on rationals as an instance of the operations, for the closed
  statements below, and a small census table with its reference table (eleven footer rows
  at the end, as the loop expects).\<close>

definition exact :: "rat numpy" where
  "exact = \<lparr>np_one = 1, np_zero = 0, np_divide = (/), np_multiply = (*),
     np_round = (\<lambda>x. of_int (round x)), astype_int = floor, np_float = of_int\<rparr>"

definition data_example :: "rat list list" where
  "data_example = [[1001, 100, 40, 60], [1002, 50, 20, 30]]"

definition counties_example :: "rat county list" where
  "counties_example =
     \<lparr>schluesselnummer = Null, bevoelkerung = 0\<rparr> #
     \<lparr>schluesselnummer = Key 1001, bevoelkerung = 110\<rparr> #
     replicate 11 \<lparr>schluesselnummer = Text, bevoelkerung = 0\<rparr>"

text \<open>The table after the first \<open>m\<close> rounds of the column loop, for the proofs.\<close>

definition scaled_upto :: "'f numpy \<Rightarrow> 'f list list \<Rightarrow> 'f list \<Rightarrow> nat \<Rightarrow> 'f list list" where
  "scaled_upto np data ratio m =
     foldl (\<lambda>data_current i.
              set_column_values data_current (i + 1)
                (map2 (np_multiply np) (get_column data (i + 1)) ratio))
       (set_column_values (replicate (length data) (replicate (length (data ! 0)) (np_zero np)))
          0 (get_column data 0))
       [0..<m]"

section \<open>Proofs: get_new_counties\<close>

lemma length_key_column [simp]: "length (key_column d) = length d"
  by (simp add: key_column_def)

lemma key_column_nth: "i < length d \<Longrightarrow> key_column d ! i = d ! i ! 0"
  by (simp add: key_column_def)

lemma rect_nth: "rect n d \<Longrightarrow> i < length d \<Longrightarrow> length (d ! i) = n"
  by (simp add: rect_def)

lemma rect_update: "rect n d \<Longrightarrow> length r = n \<Longrightarrow> rect n (d[t := r])"
  unfolding rect_def using set_update_subset_insert[of d t r] by auto

lemma iadd_row_length [simp]: "length (iadd_row d t i) = length d"
  by (simp add: iadd_row_def)

lemma iadd_row_rect:
  assumes "rect n d" "0 < n" "t < length d" "i < length d"
  shows "rect n (iadd_row d t i)"
proof -
  have "length (d ! t) = n" "length (d ! i) = n"
    using assms by (simp_all add: rect_nth)
  then have "length (take 1 (d ! t) @ map2 (+) (drop 1 (d ! t)) (drop 1 (d ! i))) = n"
    using assms(2) by simp
  then show ?thesis
    unfolding iadd_row_def using assms(1) by (rule rect_update[rotated])
qed

lemma iadd_row_nth:
  assumes "m < length d"
  shows "iadd_row d t i ! m =
    (if m = t then take 1 (d ! t) @ map2 (+) (drop 1 (d ! t)) (drop 1 (d ! i)) else d ! m)"
  using assms by (simp add: iadd_row_def)

lemma iadd_row_key_column:
  assumes "rect n d" "0 < n" "t < length d"
  shows "key_column (iadd_row d t i) = key_column d"
proof (rule nth_equalityI)
  show "length (key_column (iadd_row d t i)) = length (key_column d)" by simp
next
  fix m assume "m < length (key_column (iadd_row d t i))"
  then have m: "m < length d" by simp
  have "length (d ! t) = n" using assms by (simp add: rect_nth)
  then have "(take 1 (d ! t) @ map2 (+) (drop 1 (d ! t)) (drop 1 (d ! i))) ! 0 = d ! t ! 0"
    using assms(2) by (cases "d ! t") simp_all
  then show "key_column (iadd_row d t i) ! m = key_column d ! m"
    using m by (simp add: key_column_nth iadd_row_nth)
qed

lemma loop_inv_length: "loop_inv n ks s \<Longrightarrow> length (fst s) = length ks"
  unfolding loop_inv_def by (metis length_key_column)

lemma fuse_inv:
  assumes "loop_inv n ks s" "0 < n" "i < length ks" "0 < k" "k \<le> length ks"
  shows "loop_inv n ks (fuse old k i s)"
proof -
  obtain d del where s: "s = (d, del)" by (cases s)
  have r: "rect n d" and kc: "key_column d = ks"
    using assms(1) unfolding s loop_inv_def by auto
  have len: "length d = length ks" using kc length_key_column by metis
  have t: "length d - k < length d" using assms(3,4,5) len by arith
  have i: "i < length d" using assms(3) len by arith
  have 1: "rect n (iadd_row d (length d - k) i)"
    using r assms(2) t i by (rule iadd_row_rect)
  have 2: "key_column (iadd_row d (length d - k) i) = ks"
    using iadd_row_key_column[OF r assms(2) t, of i] kc by (rule trans)
  show ?thesis
  proof (cases "d ! i ! 0 \<in> set old")
    case True
    then have "fuse old k i s = (iadd_row d (length d - k) i, del @ [i])"
      by (simp add: s fuse_def)
    then show ?thesis using 1 2 by (simp add: loop_inv_def)
  next
    case False
    then have "fuse old k i s = s"
      by (simp add: s fuse_def)
    then show ?thesis using assms(1) by simp
  qed
qed

lemma fuse_snd:
  assumes "loop_inv n ks s" "i < length ks"
  shows "snd (fuse old k i s) = snd s @ (if ks ! i \<in> set old then [i] else [])"
proof -
  obtain d del where s: "s = (d, del)" by (cases s)
  have kc: "key_column d = ks"
    using assms(1) unfolding s loop_inv_def by auto
  have len: "length d = length ks" using kc length_key_column by metis
  have "ks ! i = d ! i ! 0"
    using key_column_nth[of i d] assms(2) len kc by simp
  then show ?thesis
    by (simp add: s fuse_def)
qed

lemma fuse_nth_raw:
  "m < length d \<Longrightarrow> fst (fuse old k i (d, del)) ! m =
     (if d ! i ! 0 \<in> set old \<and> m = length d - k
      then take 1 (d ! m) @ map2 (+) (drop 1 (d ! m)) (drop 1 (d ! i))
      else d ! m)"
  by (simp add: fuse_def iadd_row_nth)

lemma fuse_nth:
  assumes "loop_inv n ks s" "i < length ks" "m < length ks"
  shows "fst (fuse old k i s) ! m =
     (if ks ! i \<in> set old \<and> m = length ks - k
      then take 1 (fst s ! m) @ map2 (+) (drop 1 (fst s ! m)) (drop 1 (fst s ! i))
      else fst s ! m)"
proof -
  obtain d del where s: "s = (d, del)" by (cases s)
  have kc: "key_column d = ks"
    using assms(1) unfolding s loop_inv_def by auto
  have len: "length ks = length d" using kc length_key_column by metis
  have k: "ks ! i = d ! i ! 0"
    using key_column_nth[of i d] assms(2) len kc by simp
  have m: "m < length d" using assms(3) len by simp
  show ?thesis
    unfolding s k len fst_conv by (rule fuse_nth_raw[OF m])
qed

lemma loop_body_fuse_all:
  "loop_body i s = fuse_all fuse_table i (fuse [3152, 3156] 7 i s)"
  by (simp add: loop_body_def fuse_all_def fuse_table_def)

lemma fuse_all_Nil [simp]: "fuse_all [] i s = s"
  by (simp add: fuse_all_def)

lemma fuse_all_Cons [simp]: "fuse_all (p # tb) i s = fuse_all tb i (fuse (fst p) (snd p) i s)"
  by (simp add: fuse_all_def)

lemma fuse_all_inv:
  assumes "0 < n" "i < length ks" "\<forall>p \<in> set tb. 0 < snd p \<and> snd p \<le> length ks"
  shows "loop_inv n ks s \<Longrightarrow> loop_inv n ks (fuse_all tb i s)"
  using assms(3)
proof (induction tb arbitrary: s)
  case Nil
  then show ?case by simp
next
  case (Cons p tb)
  have "loop_inv n ks (fuse (fst p) (snd p) i s)"
    using Cons.prems assms(1,2) by (simp add: fuse_inv)
  then show ?case using Cons by simp
qed

lemma fuse_all_snd:
  assumes "0 < n" "i < length ks" "\<forall>p \<in> set tb. 0 < snd p \<and> snd p \<le> length ks"
  shows "loop_inv n ks s \<Longrightarrow>
    set (snd (fuse_all tb i s)) =
      set (snd s) \<union> (if ks ! i \<in> (\<Union>p \<in> set tb. set (fst p)) then {i} else {})"
  using assms(3)
proof (induction tb arbitrary: s)
  case Nil
  then show ?case by simp
next
  case (Cons p tb)
  let ?s = "fuse (fst p) (snd p) i s"
  have inv: "loop_inv n ks ?s"
    using Cons.prems assms(1,2) by (simp add: fuse_inv)
  have "set (snd (fuse_all tb i ?s)) =
      set (snd ?s) \<union> (if ks ! i \<in> (\<Union>p \<in> set tb. set (fst p)) then {i} else {})"
    using Cons.IH[OF inv] Cons.prems(2) by simp
  moreover have "snd ?s = snd s @ (if ks ! i \<in> set (fst p) then [i] else [])"
    using Cons.prems(1) assms(2) by (rule fuse_snd)
  ultimately show ?case by auto
qed

lemma fuse_all_nth:
  assumes "0 < n" "i < length ks" "m < length ks"
    "\<forall>p \<in> set tb. 0 < snd p \<and> snd p \<le> length ks \<and> m \<noteq> length ks - snd p"
  shows "loop_inv n ks s \<Longrightarrow> fst (fuse_all tb i s) ! m = fst s ! m"
  using assms(4)
proof (induction tb arbitrary: s)
  case Nil
  then show ?case by simp
next
  case (Cons p tb)
  let ?s = "fuse (fst p) (snd p) i s"
  have inv: "loop_inv n ks ?s"
    using Cons.prems assms(1,2) by (simp add: fuse_inv)
  have "fst (fuse_all tb i ?s) ! m = fst ?s ! m"
    using Cons.IH[OF inv] Cons.prems(2) by simp
  moreover have "fst ?s ! m = fst s ! m"
    using fuse_nth[OF Cons.prems(1) assms(2,3), of "fst p" "snd p"] Cons.prems(2) by simp
  ultimately show ?case by simp
qed

lemma fuse_table_bounds:
  "7 \<le> M \<Longrightarrow> \<forall>p \<in> set fuse_table. 0 < snd p \<and> snd p \<le> M"
  by (simp add: fuse_table_def)

lemma fuse_table_keys:
  "(\<Union>p \<in> set fuse_table. set (fst p)) \<union> {3152, 3156} = set predecessor_keys"
  by (simp add: fuse_table_def predecessor_keys_def) blast

lemma loop_body_inv:
  assumes "loop_inv n ks s" "0 < n" "i < length ks" "7 \<le> length ks"
  shows "loop_inv n ks (loop_body i s)"
proof -
  have "loop_inv n ks (fuse [3152, 3156] 7 i s)"
    using assms by (simp add: fuse_inv)
  then show ?thesis
    unfolding loop_body_fuse_all
    using assms(2,3) fuse_table_bounds[OF assms(4)] by (simp add: fuse_all_inv)
qed

lemma loop_body_snd:
  assumes "loop_inv n ks s" "0 < n" "i < length ks" "7 \<le> length ks"
  shows "set (snd (loop_body i s)) =
     set (snd s) \<union> (if ks ! i \<in> set predecessor_keys then {i} else {})"
proof -
  let ?s = "fuse [3152, 3156] 7 i s"
  have inv: "loop_inv n ks ?s"
    using assms by (simp add: fuse_inv)
  have 1: "set (snd (fuse_all fuse_table i ?s)) =
      set (snd ?s) \<union> (if ks ! i \<in> (\<Union>p \<in> set fuse_table. set (fst p)) then {i} else {})"
    using fuse_all_snd[OF assms(2,3) fuse_table_bounds[OF assms(4)] inv] .
  have 2: "snd ?s = snd s @ (if ks ! i \<in> set [3152, 3156] then [i] else [])"
    using assms(1,3) by (rule fuse_snd)
  have 3: "ks ! i \<in> set predecessor_keys \<longleftrightarrow>
      ks ! i \<in> (\<Union>p \<in> set fuse_table. set (fst p)) \<or> ks ! i \<in> set [3152, 3156]"
    using fuse_table_keys by auto
  show ?thesis
    unfolding loop_body_fuse_all 1 2 3 by auto
qed

lemma fuse_table_rows:
  assumes "7 \<le> (M::nat)" "m \<le> M - 7"
  shows "\<forall>p \<in> set fuse_table. 0 < snd p \<and> snd p \<le> M \<and> m \<noteq> M - snd p"
proof
  fix p assume "p \<in> set fuse_table"
  then have "0 < snd p \<and> snd p \<le> 6"
    by (auto simp: fuse_table_def)
  then show "0 < snd p \<and> snd p \<le> M \<and> m \<noteq> M - snd p"
    using assms by arith
qed

lemma loop_body_low:
  assumes "loop_inv n ks s" "0 < n" "i < length ks" "7 \<le> length ks" "m < length ks - 7"
  shows "fst (loop_body i s) ! m = fst s ! m"
proof -
  let ?s = "fuse [3152, 3156] 7 i s"
  have inv: "loop_inv n ks ?s"
    using assms by (simp add: fuse_inv)
  have m: "m < length ks" using assms(5) by simp
  have "\<forall>p \<in> set fuse_table. 0 < snd p \<and> snd p \<le> length ks \<and> m \<noteq> length ks - snd p"
    using assms(4,5) by (intro fuse_table_rows) simp_all
  then have "fst (fuse_all fuse_table i ?s) ! m = fst ?s ! m"
    using fuse_all_nth[OF assms(2,3) m _ inv] by simp
  moreover have "fst ?s ! m = fst s ! m"
    using fuse_nth[OF assms(1,3) m, of "[3152, 3156]" 7] assms(5) by simp
  ultimately show ?thesis
    unfolding loop_body_fuse_all by simp
qed

lemma loop_body_goe:
  assumes "loop_inv n ks s" "0 < n" "i < length ks" "7 \<le> length ks"
  shows "fst (loop_body i s) ! (length ks - 7) =
     (if ks ! i \<in> {3152, 3156}
      then take 1 (fst s ! (length ks - 7)) @
           map2 (+) (drop 1 (fst s ! (length ks - 7))) (drop 1 (fst s ! i))
      else fst s ! (length ks - 7))"
proof -
  let ?s = "fuse [3152, 3156] 7 i s"
  let ?m = "length ks - 7"
  have inv: "loop_inv n ks ?s"
    using assms by (simp add: fuse_inv)
  have m: "?m < length ks" using assms(3,4) by simp
  have "\<forall>p \<in> set fuse_table. 0 < snd p \<and> snd p \<le> length ks \<and> ?m \<noteq> length ks - snd p"
    using assms(4) by (intro fuse_table_rows) simp_all
  then have "fst (fuse_all fuse_table i ?s) ! ?m = fst ?s ! ?m"
    using fuse_all_nth[OF assms(2,3) m _ inv] by simp
  moreover have "fst ?s ! ?m =
     (if ks ! i \<in> {3152, 3156}
      then take 1 (fst s ! ?m) @ map2 (+) (drop 1 (fst s ! ?m)) (drop 1 (fst s ! i))
      else fst s ! ?m)"
    using fuse_nth[OF assms(1,3) m, of "[3152, 3156]" 7] by simp
  ultimately show ?thesis
    unfolding loop_body_fuse_all by simp
qed

lemma run_0 [simp]: "run 0 d = (d, [])"
  by (simp add: run_def)

lemma run_Suc [simp]: "run (Suc j) d = loop_body j (run j d)"
  by (simp add: run_def)

lemma fuse_loop_run: "fuse_loop d = run (length d) d"
  by (simp add: fuse_loop_def run_def)

lemma run_inv:
  assumes "rect n d" "0 < n" "7 \<le> length d"
  shows "j \<le> length d \<Longrightarrow>
    loop_inv n (key_column d) (run j d) \<and>
    set (snd (run j d)) = {i. i < j \<and> key_column d ! i \<in> set predecessor_keys}"
proof (induction j)
  case 0
  then show ?case using assms(1) by (simp add: loop_inv_def)
next
  case (Suc j)
  then have IH: "loop_inv n (key_column d) (run j d)"
    "set (snd (run j d)) = {i. i < j \<and> key_column d ! i \<in> set predecessor_keys}"
    by simp_all
  have j: "j < length (key_column d)" using Suc.prems by simp
  have l: "7 \<le> length (key_column d)" using assms(3) by simp
  have "loop_inv n (key_column d) (run (Suc j) d)"
    using loop_body_inv[OF IH(1) assms(2) j l] by simp
  moreover have "set (snd (run (Suc j) d)) =
     {i. i < Suc j \<and> key_column d ! i \<in> set predecessor_keys}"
    using loop_body_snd[OF IH(1) assms(2) j l] IH(2) by (auto simp: less_Suc_eq)
  ultimately show ?case by simp
qed

lemma run_low:
  assumes "rect n d" "0 < n" "7 \<le> length d" "m < length d - 7"
  shows "j \<le> length d \<Longrightarrow> fst (run j d) ! m = d ! m"
proof (induction j)
  case 0
  then show ?case by simp
next
  case (Suc j)
  have inv: "loop_inv n (key_column d) (run j d)"
    using run_inv[OF assms(1,2,3), of j] Suc.prems by simp
  have j: "j < length (key_column d)" using Suc.prems by simp
  have l: "7 \<le> length (key_column d)" using assms(3) by simp
  have m: "m < length (key_column d) - 7" using assms(4) by simp
  show ?case
    using loop_body_low[OF inv assms(2) j l m] Suc by simp
qed

lemma run_goe:
  assumes "rect n d" "0 < n" "7 \<le> length d"
    "\<forall>i. length d - 7 \<le> i \<and> i < length d \<longrightarrow> d ! i ! 0 \<notin> {3152, 3156}"
  shows "j \<le> length d \<Longrightarrow>
    fst (run j d) ! (length d - 7) =
      take 1 (d ! (length d - 7)) @
      foldl (map2 (+)) (drop 1 (d ! (length d - 7)))
        (map (drop 1) (filter (\<lambda>r. r ! 0 \<in> {3152, 3156}) (take j d)))"
proof (induction j)
  case 0
  have "length (d ! (length d - 7)) = n"
    using assms(1,3) by (simp add: rect_nth)
  then show ?case by simp
next
  case (Suc j)
  let ?M = "length d - 7"
  let ?acc = "foldl (map2 (+)) (drop 1 (d ! ?M))
        (map (drop 1) (filter (\<lambda>r. r ! 0 \<in> {3152, 3156}) (take j d)))"
  have IH: "fst (run j d) ! ?M = take 1 (d ! ?M) @ ?acc"
    using Suc by simp
  have inv: "loop_inv n (key_column d) (run j d)"
    using run_inv[OF assms(1,2,3), of j] Suc.prems by simp
  have j: "j < length (key_column d)" using Suc.prems by simp
  have l: "7 \<le> length (key_column d)" using assms(3) by simp
  have jd: "j < length d" using Suc.prems by simp
  have step: "fst (run (Suc j) d) ! ?M =
     (if d ! j ! 0 \<in> {3152, 3156}
      then take 1 (fst (run j d) ! ?M) @
           map2 (+) (drop 1 (fst (run j d) ! ?M)) (drop 1 (fst (run j d) ! j))
      else fst (run j d) ! ?M)"
    using loop_body_goe[OF inv assms(2) j l] jd by (simp add: key_column_nth)
  have tk: "take (Suc j) d = take j d @ [d ! j]"
    using jd by (simp add: take_Suc_conv_app_nth)
  have len1: "length (take 1 (d ! ?M)) = 1"
    using assms(1,2,3) by (simp add: rect_nth)
  show ?case
  proof (cases "d ! j ! 0 \<in> {3152, 3156}")
    case False
    then show ?thesis using step IH tk by simp
  next
    case True
    then have "j < ?M" using assms(4) jd by (meson not_le_imp_less)
    then have row: "fst (run j d) ! j = d ! j"
      using run_low[OF assms(1,2,3), of j j] Suc.prems by simp
    have "take 1 (take 1 (d ! ?M) @ ?acc) = take 1 (d ! ?M)"
      using len1 by simp
    moreover have "drop 1 (take 1 (d ! ?M) @ ?acc) = ?acc"
      using len1 by simp
    ultimately have "fst (run (Suc j) d) ! ?M =
       take 1 (d ! ?M) @ map2 (+) ?acc (drop 1 (d ! j))"
      using step True IH row by simp
    then show ?thesis using True tk by simp
  qed
qed

lemma map_snd_filter: "map snd (filter (\<lambda>p. Q (snd p)) zs) = filter Q (map snd zs)"
  by (induction zs) simp_all

lemma np_delete_filter:
  assumes "set del = {i. i < length d \<and> P (d ! i)}"
  shows "np_delete d del = filter (\<lambda>r. \<not> P r) d"
proof -
  have "filter (\<lambda>p. fst p \<notin> set del) (zip [0..<length d] d) =
        filter (\<lambda>p. \<not> P (snd p)) (zip [0..<length d] d)"
  proof (rule filter_cong[OF refl])
    fix p assume "p \<in> set (zip [0..<length d] d)"
    then obtain i where "i < length d" "p = (i, d ! i)"
      by (auto simp: in_set_zip)
    then show "(fst p \<notin> set del) = (\<not> P (snd p))"
      using assms by simp
  qed
  then have "np_delete d del = map snd (filter (\<lambda>p. \<not> P (snd p)) (zip [0..<length d] d))"
    by (simp add: np_delete_def)
  also have "\<dots> = filter (\<lambda>r. \<not> P r) (map snd (zip [0..<length d] d))"
    by (rule map_snd_filter)
  finally show ?thesis by simp
qed

lemma take_rows_mset:
  "mset (map (\<lambda>j. d ! j) (np_argsort (key_column d))) = mset d"
proof -
  have "mset (map (\<lambda>j. d ! j) (np_argsort (key_column d))) =
        image_mset (\<lambda>j. d ! j) (mset [0..<length d])"
    by (simp add: np_argsort_def)
  also have "\<dots> = mset (map (\<lambda>j. d ! j) [0..<length d])"
    by simp
  finally show ?thesis by (simp add: map_nth)
qed

lemma take_rows_sorted:
  "sorted (key_column (map (\<lambda>j. d ! j) (np_argsort (key_column d))))"
proof -
  let ?f = "\<lambda>j. key_column d ! j"
  have "set (np_argsort (key_column d)) = {0..<length d}"
    by (simp add: np_argsort_def)
  then have "key_column (map (\<lambda>j. d ! j) (np_argsort (key_column d))) =
        map ?f (np_argsort (key_column d))"
    by (simp add: key_column_def)
  then show ?thesis
    by (simp add: np_argsort_def sorted_sort_key)
qed

lemma length_set_item [simp]: "length (set_item d r c v) = length d"
  by (simp add: set_item_def)

lemma appended_rows:
  assumes "0 < n"
  shows "set_item (set_item (set_item (set_item (set_item (set_item (set_item
           (rs @ np_zeros 7 n) (length rs) 0 3159) (Suc (length rs)) 0 13071)
           (length rs + 2) 0 13072) (length rs + 3) 0 13073) (length rs + 4) 0 13074)
           (length rs + 5) 0 13075) (length rs + 6) 0 13076
         = rs @ map (\<lambda>k. k # replicate (n - 1) 0) successor_keys"
proof -
  obtain m where n: "n = Suc m" using assms by (cases n) auto
  show ?thesis
    by (simp add: n set_item_def np_zeros_def successor_keys_def eval_nat_numeral
        list_update_append nth_append)
qed

lemma get_new_counties_unfold:
  assumes "0 < shape1 a"
  shows "get_new_counties a =
    (let d8 = fst (fuse_loop (appended a));
         d9 = np_delete d8 (snd (fuse_loop (appended a)))
     in Inr \<lparr>shape1 = shape1 a, rows = map (\<lambda>j. d9 ! j) (np_argsort (key_column d9))\<rparr>)"
proof -
  have len: "length (np_zeros 7 (shape1 a)) = 7"
    by (simp add: np_zeros_def)
  show ?thesis
    using assms
    unfolding get_new_counties_def Let_def appended_def appended_rows[OF assms, symmetric]
    by (simp add: len split_beta add.commute)
qed

lemma length_appended: "length (appended a) = length (rows a) + 7"
  by (simp add: appended_def successor_keys_def)

lemma key_column_append: "key_column (xs @ ys) = key_column xs @ key_column ys"
  by (simp add: key_column_def)

lemma key_column_appended:
  "key_column (appended a) = key_column (rows a) @ successor_keys"
  by (simp add: appended_def key_column_def o_def)

lemma rect_appended:
  assumes "wf_ndarray a" "0 < shape1 a"
  shows "rect (shape1 a) (appended a)"
  using assms by (auto simp: wf_ndarray_def rect_def appended_def)

lemma fused_inv:
  assumes "wf_ndarray a" "0 < shape1 a"
  shows "loop_inv (shape1 a) (key_column (rows a) @ successor_keys) (fuse_loop (appended a))"
    and "set (snd (fuse_loop (appended a))) =
      {i. i < length (fused a) \<and> fused a ! i ! 0 \<in> set predecessor_keys}"
proof -
  let ?d = "appended a"
  have 7: "7 \<le> length ?d" by (simp add: length_appended)
  note ri = run_inv[OF rect_appended[OF assms] assms(2) 7, of "length ?d", simplified]
  show inv: "loop_inv (shape1 a) (key_column (rows a) @ successor_keys) (fuse_loop ?d)"
    using ri by (simp add: fuse_loop_run key_column_appended)
  have len: "length (fused a) = length ?d"
    using loop_inv_length[OF inv] by (simp add: fused_def length_appended successor_keys_def)
  have kc: "key_column (fused a) = key_column ?d"
    using inv by (simp add: loop_inv_def fused_def key_column_appended)
  have "\<And>i. i < length ?d \<Longrightarrow> key_column ?d ! i = fused a ! i ! 0"
    using kc len by (metis key_column_nth)
  then show "set (snd (fuse_loop ?d)) =
      {i. i < length (fused a) \<and> fused a ! i ! 0 \<in> set predecessor_keys}"
    using ri len by (auto simp: fuse_loop_run)
qed

lemma key_column_fused:
  assumes "wf_ndarray a" "0 < shape1 a"
  shows "key_column (fused a) = key_column (rows a) @ successor_keys"
  using fused_inv(1)[OF assms] by (simp add: loop_inv_def fused_def)

lemma get_new_counties_kept:
  assumes "wf_ndarray a" "0 < shape1 a"
  shows "get_new_counties a =
    Inr \<lparr>shape1 = shape1 a,
         rows = map (\<lambda>j. kept a ! j) (np_argsort (key_column (kept a)))\<rparr>"
proof -
  have "np_delete (fused a) (snd (fuse_loop (appended a))) = kept a"
    unfolding kept_def
    using fused_inv(2)[OF assms] by (rule np_delete_filter)
  then show ?thesis
    using get_new_counties_unfold[OF assms(2)] by (simp add: Let_def fused_def)
qed

lemma key_column_filter:
  "key_column (filter (\<lambda>r. P (r ! 0)) d) = filter P (key_column d)"
  by (simp add: key_column_def filter_map o_def)

lemma successor_not_predecessor:
  "filter (\<lambda>k. k \<notin> set predecessor_keys) successor_keys = successor_keys"
  by (simp add: successor_keys_def predecessor_keys_def)

lemma key_column_kept:
  assumes "wf_ndarray a" "0 < shape1 a"
  shows "key_column (kept a) =
     filter (\<lambda>k. k \<notin> set predecessor_keys) (key_column (rows a)) @ successor_keys"
  using key_column_filter[of "\<lambda>k. k \<notin> set predecessor_keys" "fused a"]
  by (simp add: kept_def key_column_fused[OF assms] successor_not_predecessor)

lemma key_column_take_rows:
  "mset (key_column (map (\<lambda>j. d ! j) (np_argsort (key_column d)))) = mset (key_column d)"
proof -
  let ?R = "map (\<lambda>j. d ! j) (np_argsort (key_column d))"
  have "mset (key_column ?R) = image_mset (\<lambda>r. r ! 0) (mset ?R)"
    unfolding key_column_def by (rule mset_map)
  also have "\<dots> = image_mset (\<lambda>r. r ! 0) (mset d)"
    using take_rows_mset[of d] by (rule arg_cong)
  also have "\<dots> = mset (key_column d)"
    unfolding key_column_def by (rule mset_map[symmetric])
  finally show ?thesis .
qed

text \<open>
  Claim C1.  Let the input array have at least the key column, pairwise distinct keys in
  it, and none of the seven successor keys among them.  Then \<open>get_new_counties\<close> returns
  an array whose number of rows is the number of input rows, minus the number of input rows
  with a predecessor key, plus 7; its key column is sorted in ascending order and holds no
  key twice.
\<close>

theorem get_new_counties_rows_sorted_distinct:
  assumes "wf_ndarray a" and "0 < shape1 a"
    and "distinct (key_column (rows a))"
    and "set (key_column (rows a)) \<inter> set successor_keys = {}"
  shows "\<exists>b. get_new_counties a = Inr b \<and>
     length (rows b) =
       length (rows a) - length (filter (\<lambda>r. r ! 0 \<in> set predecessor_keys) (rows a)) + 7 \<and>
     sorted (key_column (rows b)) \<and> distinct (key_column (rows b))"
proof -
  let ?R = "map (\<lambda>j. kept a ! j) (np_argsort (key_column (kept a)))"
  let ?b = "\<lparr>shape1 = shape1 a, rows = ?R\<rparr>"
  let ?keep = "filter (\<lambda>k. k \<notin> set predecessor_keys) (key_column (rows a))"
  have res: "get_new_counties a = Inr ?b"
    using assms(1,2) by (rule get_new_counties_kept)
  have kk: "key_column (kept a) = ?keep @ successor_keys"
    using assms(1,2) by (rule key_column_kept)
  have ms: "mset (key_column ?R) = mset (key_column (kept a))"
    by (rule key_column_take_rows)
  have "length (key_column ?R) = length (key_column (kept a))"
    using ms by (rule mset_eq_length)
  then have "length ?R = length ?keep + 7"
    by (simp add: kk successor_keys_def)
  moreover have "length (filter (\<lambda>r. r ! 0 \<in> set predecessor_keys) (rows a)) + length ?keep
      = length (rows a)"
    using sum_length_filter_compl[of "\<lambda>k. k \<in> set predecessor_keys" "key_column (rows a)"]
      key_column_filter[of "\<lambda>k. k \<in> set predecessor_keys" "rows a"]
    by (metis length_key_column)
  ultimately have len: "length ?R =
      length (rows a) - length (filter (\<lambda>r. r ! 0 \<in> set predecessor_keys) (rows a)) + 7"
    by simp
  have srt: "sorted (key_column ?R)"
    by (rule take_rows_sorted)
  have "distinct successor_keys"
    by (simp add: successor_keys_def)
  then have "distinct (key_column (kept a))"
    using assms(3,4) by (auto simp: kk)
  then have dst: "distinct (key_column ?R)"
    using mset_eq_imp_distinct_iff[OF ms] by simp
  show ?thesis
    using res len srt dst by simp
qed

lemma two_rows_cases:
  assumes "mset xs = {#r1, r2#}"
  shows "xs = [r1, r2] \<or> xs = [r2, r1]"
proof -
  have "length xs = 2"
    using mset_eq_length[of xs "[r1, r2]"] assms by simp
  then obtain x y where xs: "xs = [x, y]"
    by (auto simp: length_Suc_conv eval_nat_numeral)
  show ?thesis
    using assms unfolding xs by (auto simp: add_eq_conv_ex)
qed

lemma fused_low:
  assumes "wf_ndarray a" "0 < shape1 a"
  shows "take (length (rows a)) (fused a) = rows a"
proof (rule nth_equalityI)
  have "length (fused a) = length (rows a) + 7"
    using loop_inv_length[OF fused_inv(1)[OF assms]]
    by (simp add: fused_def successor_keys_def)
  then show "length (take (length (rows a)) (fused a)) = length (rows a)"
    by simp
next
  fix i assume "i < length (take (length (rows a)) (fused a))"
  then have i: "i < length (rows a)" by simp
  have 7: "7 \<le> length (appended a)" by (simp add: length_appended)
  have "fst (run (length (appended a)) (appended a)) ! i = appended a ! i"
    using run_low[OF rect_appended[OF assms] assms(2) 7, of i "length (appended a)"] i
    by (simp add: length_appended)
  then show "take (length (rows a)) (fused a) ! i = rows a ! i"
    using i by (simp add: fused_def fuse_loop_run appended_def nth_append)
qed

lemma fused_goe:
  assumes "wf_ndarray a" "0 < shape1 a"
  shows "fused a ! length (rows a) =
     3159 # foldl (map2 (+)) (replicate (shape1 a - 1) 0)
       (map (drop 1) (filter (\<lambda>r. r ! 0 \<in> {3152, 3156}) (rows a)))"
proof -
  let ?d = "appended a"
  let ?N = "length (rows a)"
  have 7: "7 \<le> length ?d" by (simp add: length_appended)
  have N: "length ?d - 7 = ?N" by (simp add: length_appended)
  have new: "\<forall>i. length ?d - 7 \<le> i \<and> i < length ?d \<longrightarrow> ?d ! i ! 0 \<notin> {3152, 3156}"
  proof (intro allI impI)
    fix i assume i: "length ?d - 7 \<le> i \<and> i < length ?d"
    then have "key_column ?d ! i = successor_keys ! (i - ?N)"
      unfolding key_column_appended N by (simp add: nth_append)
    moreover have "i - ?N < length successor_keys"
      using i unfolding length_appended successor_keys_def by (simp, arith)
    ultimately have "key_column ?d ! i \<in> set successor_keys"
      by (metis nth_mem)
    then have "key_column ?d ! i \<notin> {3152, 3156}"
      by (auto simp: successor_keys_def)
    then show "?d ! i ! 0 \<notin> {3152, 3156}"
      using i by (simp add: key_column_nth)
  qed
  have row: "?d ! ?N = 3159 # replicate (shape1 a - 1) 0"
    by (simp add: appended_def successor_keys_def nth_append)
  have "filter (\<lambda>r. r ! 0 \<in> {3152, 3156}) ?d = filter (\<lambda>r. r ! 0 \<in> {3152, 3156}) (rows a)"
    by (simp add: appended_def successor_keys_def)
  then show ?thesis
    using run_goe[OF rect_appended[OF assms] assms(2) 7 new, of "length ?d"]
    unfolding N by (simp add: fused_def fuse_loop_run row)
qed

lemma filter_sub:
  assumes "\<And>x. P x \<Longrightarrow> Q x"
  shows "filter P xs = filter P (filter Q xs)"
  using assms by (induction xs) auto

lemma filter_key_empty:
  assumes "k \<notin> set (key_column d)"
  shows "filter (\<lambda>r. r ! 0 = k) d = []"
  using assms by (auto simp: key_column_def filter_empty_conv)

lemma fused_successor_rows:
  assumes "wf_ndarray a" "0 < shape1 a"
  shows "key_column (drop (Suc (length (rows a))) (fused a)) = tl successor_keys"
proof -
  have "key_column (drop (Suc (length (rows a))) (fused a)) =
        drop (Suc (length (rows a))) (key_column (fused a))"
    by (simp add: key_column_def drop_map)
  also have "\<dots> = drop 1 successor_keys"
    unfolding key_column_fused[OF assms] by simp
  finally show ?thesis by (simp add: drop_Suc)
qed

text \<open>
  Claim C2.  Let the input array have three columns, and let its rows with one of the keys
  3152, 3156, 3159 be exactly the row \<open>[3152, 10, 20]\<close> and the row \<open>[3156, 5, 8]\<close>,
  in either order, anywhere among the other rows.  Then the result has exactly one row with
  key 3159, this row is \<open>[3159, 15, 28]\<close>, and no row has key 3152 or 3156.
\<close>

theorem get_new_counties_goettingen:
  assumes "wf_ndarray a" and "shape1 a = 3"
    and "mset (filter (\<lambda>r. r ! 0 \<in> {3152, 3156, 3159}) (rows a)) =
           {#[3152, 10, 20], [3156, 5, 8]#}"
  shows "\<exists>b. get_new_counties a = Inr b \<and>
     filter (\<lambda>r. r ! 0 = 3159) (rows b) = [[3159, 15, 28]] \<and>
     3152 \<notin> set (key_column (rows b)) \<and> 3156 \<notin> set (key_column (rows b))"
proof -
  let ?N = "length (rows a)"
  let ?R = "map (\<lambda>j. kept a ! j) (np_argsort (key_column (kept a)))"
  let ?b = "\<lparr>shape1 = shape1 a, rows = ?R\<rparr>"
  let ?F = "filter (\<lambda>r. r ! 0 \<in> {3152, 3156, 3159}) (rows a)"
  have n: "0 < shape1 a" using assms(2) by simp
  have res: "get_new_counties a = Inr ?b"
    using assms(1) n by (rule get_new_counties_kept)
  have F: "?F = [[3152, 10, 20], [3156, 5, 8]] \<or> ?F = [[3156, 5, 8], [3152, 10, 20]]"
    using assms(3) by (rule two_rows_cases)
  have GF: "filter (\<lambda>r. r ! 0 \<in> {3152, 3156}) (rows a) = filter (\<lambda>r. r ! 0 \<in> {3152, 3156}) ?F"
    by (rule filter_sub) blast
  have G: "filter (\<lambda>r. r ! 0 \<in> {3152, 3156}) (rows a) = [[3152, 10, 20], [3156, 5, 8]] \<or>
      filter (\<lambda>r. r ! 0 \<in> {3152, 3156}) (rows a) = [[3156, 5, 8], [3152, 10, 20]]"
    using F
  proof
    assume "?F = [[3152, 10, 20], [3156, 5, 8]]"
    then show ?thesis unfolding GF by simp
  next
    assume "?F = [[3156, 5, 8], [3152, 10, 20]]"
    then show ?thesis unfolding GF by simp
  qed
  have NF: "filter (\<lambda>r. r ! 0 = 3159) (rows a) = filter (\<lambda>r. r ! 0 = 3159) ?F"
    by (rule filter_sub) blast
  have no59: "filter (\<lambda>r. r ! 0 = 3159) (rows a) = []"
    using F
  proof
    assume "?F = [[3152, 10, 20], [3156, 5, 8]]"
    then show ?thesis unfolding NF by simp
  next
    assume "?F = [[3156, 5, 8], [3152, 10, 20]]"
    then show ?thesis unfolding NF by simp
  qed
  have row: "fused a ! ?N = [3159, 15, 28]"
    using fused_goe[OF assms(1) n] G by (auto simp: assms(2) eval_nat_numeral)
  have len: "length (fused a) = ?N + 7"
    using loop_inv_length[OF fused_inv(1)[OF assms(1) n]]
    by (simp add: fused_def successor_keys_def)
  then have split: "fused a = take ?N (fused a) @ fused a ! ?N # drop (Suc ?N) (fused a)"
    by (simp add: id_take_nth_drop)
  have "3159 \<notin> set (key_column (drop (Suc ?N) (fused a)))"
    unfolding fused_successor_rows[OF assms(1) n] by (simp add: successor_keys_def)
  then have tail: "filter (\<lambda>r. r ! 0 = 3159) (drop (Suc ?N) (fused a)) = []"
    by (rule filter_key_empty)
  have "filter (\<lambda>r. r ! 0 = 3159) (fused a) =
      filter (\<lambda>r. r ! 0 = 3159) (take ?N (fused a)) @
      filter (\<lambda>r. r ! 0 = 3159) [fused a ! ?N] @
      filter (\<lambda>r. r ! 0 = 3159) (drop (Suc ?N) (fused a))"
    by (subst split) simp
  then have fz: "filter (\<lambda>r. r ! 0 = 3159) (fused a) = [[3159, 15, 28]]"
    unfolding fused_low[OF assms(1) n] no59 tail row by simp
  have kf: "filter (\<lambda>r. r ! 0 = 3159) (kept a) = filter (\<lambda>r. r ! 0 = 3159) (fused a)"
    unfolding kept_def filter_filter
    by (rule filter_cong) (auto simp: predecessor_keys_def)
  have "mset (filter (\<lambda>r. r ! 0 = 3159) ?R) = filter_mset (\<lambda>r. r ! 0 = 3159) (mset ?R)"
    by (rule mset_filter)
  also have "\<dots> = filter_mset (\<lambda>r. r ! 0 = 3159) (mset (kept a))"
    by (simp only: take_rows_mset)
  also have "\<dots> = mset (filter (\<lambda>r. r ! 0 = 3159) (kept a))"
    by (rule mset_filter[symmetric])
  finally have "mset (filter (\<lambda>r. r ! 0 = 3159) ?R) = mset [[3159, 15, 28]]"
    unfolding kf fz .
  then have one: "filter (\<lambda>r. r ! 0 = 3159) ?R = [[3159, 15, 28]]"
    by (simp del: mset_filter)
  have "set (key_column ?R) = set (key_column (kept a))"
    using key_column_take_rows[of "kept a"] by (rule mset_eq_setD)
  then have "3152 \<notin> set (key_column ?R)" "3156 \<notin> set (key_column ?R)"
    unfolding key_column_kept[OF assms(1) n]
    by (simp_all add: predecessor_keys_def successor_keys_def)
  then show ?thesis
    using res one by simp
qed

text \<open>The hypotheses of C1 hold for a census array of three regions, two of them
  predecessors of Goettingen; the result has \<open>3 - 2 + 7 = 8\<close> rows.\<close>

theorem get_new_counties_rows_sorted_distinct_witness:
  "wf_ndarray census_example \<and> 0 < shape1 census_example \<and>
   distinct (key_column (rows census_example)) \<and>
   set (key_column (rows census_example)) \<inter> set successor_keys = {} \<and>
   (\<exists>b. get_new_counties census_example = Inr b \<and> length (rows b) = 8 \<and>
      sorted (key_column (rows b)) \<and> distinct (key_column (rows b)))"
proof -
  have h1: "wf_ndarray census_example"
    by (simp add: census_example_def wf_ndarray_def)
  have h2: "0 < shape1 census_example"
    by (simp add: census_example_def)
  have h3: "distinct (key_column (rows census_example))"
    by (simp add: census_example_def key_column_def)
  have h4: "set (key_column (rows census_example)) \<inter> set successor_keys = {}"
    by (simp add: census_example_def key_column_def successor_keys_def)
  have "length (rows census_example) -
      length (filter (\<lambda>r. r ! 0 \<in> set predecessor_keys) (rows census_example)) + 7 = 8"
    by (simp add: census_example_def predecessor_keys_def)
  then show ?thesis
    using get_new_counties_rows_sorted_distinct[OF h1 h2 h3 h4] h1 h2 h3 h4 by simp
qed

text \<open>The hypotheses of C2 hold for the same array.\<close>

theorem get_new_counties_goettingen_witness:
  "wf_ndarray census_example \<and> shape1 census_example = 3 \<and>
   mset (filter (\<lambda>r. r ! 0 \<in> {3152, 3156, 3159}) (rows census_example)) =
     {#[3152, 10, 20], [3156, 5, 8]#} \<and>
   (\<exists>b. get_new_counties census_example = Inr b \<and>
     filter (\<lambda>r. r ! 0 = 3159) (rows b) = [[3159, 15, 28]] \<and>
     3152 \<notin> set (key_column (rows b)) \<and> 3156 \<notin> set (key_column (rows b)))"
proof -
  have h1: "wf_ndarray census_example"
    by (simp add: census_example_def wf_ndarray_def)
  have h2: "shape1 census_example = 3"
    by (simp add: census_example_def)
  have h3: "mset (filter (\<lambda>r. r ! 0 \<in> {3152, 3156, 3159}) (rows census_example)) =
     {#[3152, 10, 20], [3156, 5, 8]#}"
    by (simp add: census_example_def)
  show ?thesis
    using get_new_counties_goettingen[OF h1 h2 h3] h1 h2 h3 by simp
qed

section \<open>Proofs: the rescaling step\<close>

lemma ratio_loop_nth:
  "ratio_loop np data cs = Inr rs \<Longrightarrow>
     length rs = length data \<and>
     (\<forall>i < length data. ratio_row np (data ! i) cs (np_one np) = Inr (rs ! i))"
proof (induction data arbitrary: rs)
  case Nil
  then show ?case by simp
next
  case (Cons row data)
  from Cons.prems obtain r rs' where
    r: "ratio_row np row cs (np_one np) = Inr r" and
    rs': "ratio_loop np data cs = Inr rs'" and
    rs: "rs = r # rs'"
    by (auto split: sum.splits)
  have IH: "length rs' = length data"
    "\<forall>i < length data. ratio_row np (data ! i) cs (np_one np) = Inr (rs' ! i)"
    using Cons.IH[OF rs'] by simp_all
  show ?case
    unfolding rs using r IH by (auto simp: nth_Cons split: nat.splits)
qed

lemma ratio_row_unmatched:
  assumes "\<forall>c \<in> set cs. \<forall>k. schluesselnummer c = Key k \<longrightarrow> row ! 0 \<noteq> np_float np k"
  shows "ratio_row np row cs r = Inr r' \<Longrightarrow> r' = r"
  using assms
proof (induction cs arbitrary: r)
  case Nil
  then show ?case by simp
next
  case (Cons c cs)
  show ?case
  proof (cases "schluesselnummer c")
    case Null
    then show ?thesis using Cons by simp
  next
    case (Key k)
    then have "row ! 0 \<noteq> np_float np k" using Cons.prems(2) by simp
    then show ?thesis using Cons Key by simp
  next
    case Text
    then show ?thesis using Cons.prems(1) by simp
  qed
qed

lemma not_matched:
  "\<not> matched np row counties \<Longrightarrow>
   \<forall>c \<in> set (take (length counties - 11) counties).
     \<forall>k. schluesselnummer c = Key k \<longrightarrow> row ! 0 \<noteq> np_float np k"
  by (auto simp: matched_def list_ex_iff)

lemma set_column_values_length:
  "length vs = length m \<Longrightarrow> length (set_column_values m j vs) = length m"
  by (simp add: set_column_values_def)

lemma set_column_values_nth:
  "length vs = length m \<Longrightarrow> i < length m \<Longrightarrow>
   set_column_values m j vs ! i = (m ! i)[j := vs ! i]"
  by (simp add: set_column_values_def)

lemma scaled_upto_Suc:
  "scaled_upto np data ratio (Suc m) =
     set_column_values (scaled_upto np data ratio m) (m + 1)
       (map2 (np_multiply np) (get_column data (m + 1)) ratio)"
  by (simp add: scaled_upto_def)

lemma scaled_upto_nth:
  assumes "\<forall>r \<in> set data. length r = n" and "length ratio = length data" and "i < length data"
  shows "length (scaled_upto np data ratio m) = length data \<and>
     length (scaled_upto np data ratio m ! i) = n \<and>
     (\<forall>j < n. scaled_upto np data ratio m ! i ! j =
        (if j = 0 then data ! i ! 0
         else if j \<le> m then np_multiply np (data ! i ! j) (ratio ! i)
         else np_zero np))"
proof (induction m)
  case 0
  have n0: "length (data ! 0) = n"
    using assms(1,3) by (cases data) auto
  have "scaled_upto np data ratio 0 ! i = (replicate n (np_zero np))[0 := data ! i ! 0]"
    using assms(3) by (simp add: scaled_upto_def set_column_values_def get_column_def n0)
  moreover have "length (scaled_upto np data ratio 0) = length data"
    by (simp add: scaled_upto_def set_column_values_def get_column_def)
  ultimately show ?case
    by (auto simp: nth_list_update)
next
  case (Suc m)
  let ?dc = "scaled_upto np data ratio m"
  let ?vs = "map2 (np_multiply np) (get_column data (m + 1)) ratio"
  have len: "length ?vs = length ?dc"
    using Suc assms(2) by (simp add: get_column_def)
  have i: "i < length ?dc" using Suc assms(3) by simp
  have v: "?vs ! i = np_multiply np (data ! i ! (m + 1)) (ratio ! i)"
    using assms(2,3) by (simp add: get_column_def)
  have row: "scaled_upto np data ratio (Suc m) ! i = (?dc ! i)[m + 1 := ?vs ! i]"
    unfolding scaled_upto_Suc using len i by (rule set_column_values_nth)
  have "length (scaled_upto np data ratio (Suc m)) = length data"
    unfolding scaled_upto_Suc using Suc len by (simp add: set_column_values_length)
  moreover have "length (scaled_upto np data ratio (Suc m) ! i) = n"
    unfolding row using Suc by simp
  moreover have "\<forall>j < n. scaled_upto np data ratio (Suc m) ! i ! j =
        (if j = 0 then data ! i ! 0
         else if j \<le> Suc m then np_multiply np (data ! i ! j) (ratio ! i)
         else np_zero np)"
  proof (intro allI impI)
    fix j assume j: "j < n"
    have IHj: "?dc ! i ! j =
        (if j = 0 then data ! i ! 0
         else if j \<le> m then np_multiply np (data ! i ! j) (ratio ! i)
         else np_zero np)"
      using Suc j by simp
    have lj: "j < length (?dc ! i)" using Suc j by simp
    show "scaled_upto np data ratio (Suc m) ! i ! j =
        (if j = 0 then data ! i ! 0
         else if j \<le> Suc m then np_multiply np (data ! i ! j) (ratio ! i)
         else np_zero np)"
    proof (cases "j = Suc m")
      case True
      then show ?thesis unfolding row v using lj by simp
    next
      case False
      then have "scaled_upto np data ratio (Suc m) ! i ! j = ?dc ! i ! j"
        unfolding row by simp
      then show ?thesis using IHj False by auto
    qed
  qed
  ultimately show ?case by blast
qed

lemma scale_columns_nth:
  assumes "\<forall>r \<in> set data. length r = n" and "length ratio = length data" and "i < length data"
    and "1 \<le> j" and "j < n"
  shows "scale_columns np data ratio ! i ! j = np_multiply np (data ! i ! j) (ratio ! i)"
    and "length (scale_columns np data ratio) = length data"
    and "length (scale_columns np data ratio ! i) = n"
proof -
  have n0: "length (data ! 0) = n"
    using assms(1,3) by (cases data) auto
  have eq: "scale_columns np data ratio = scaled_upto np data ratio (n - 1)"
    by (simp add: scale_columns_def scaled_upto_def n0)
  note S = scaled_upto_nth[OF assms(1,2,3), of np "n - 1"]
  show "scale_columns np data ratio ! i ! j = np_multiply np (data ! i ! j) (ratio ! i)"
    unfolding eq using S assms(4,5) by auto
  show "length (scale_columns np data ratio) = length data"
    unfolding eq using S by simp
  show "length (scale_columns np data ratio ! i) = n"
    unfolding eq using S by simp
qed

text \<open>
  Claim C3.  Let every row of the array have the same number \<open>n \<ge> 2\<close> of columns (13 in
  the source), and let the step return the two tables.  Then for every region row \<open>i\<close> and
  every column \<open>j \<ge> 1\<close> (the total and the age brackets) the rescaled table holds
  \<open>np.round(v * r).astype(int)\<close>, for the raw value \<open>v = data[i,j]\<close> and the ratio
  \<open>r = ratio[i]\<close> of the row.  For a region without a matching row in the reference table the
  ratio is \<open>1.0\<close>; and where moreover \<open>v * 1.0\<close> is \<open>v\<close> and \<open>v\<close> is an integer value
  (\<open>np.round(v)\<close> is \<open>v\<close>), as float64 has it, the rescaled value is the raw value of the
  unscaled table.
\<close>

theorem rescale_rounds_products:
  assumes "\<forall>r \<in> set data. length r = n" and "2 \<le> n"
    and "rescale np data counties = Inr (df, df_current)"
    and "i < length data" and "1 \<le> j" and "j < n"
  shows "\<exists>ratio. ratio_loop np data (take (length counties - 11) counties) = Inr ratio \<and>
     df_current ! i ! j =
       astype_int np (np_round np (np_multiply np (data ! i ! j) (ratio ! i))) \<and>
     (\<not> matched np (data ! i) counties \<longrightarrow> ratio ! i = np_one np) \<and>
     (\<not> matched np (data ! i) counties \<and>
      np_multiply np (data ! i ! j) (np_one np) = data ! i ! j \<and>
      np_round np (data ! i ! j) = data ! i ! j \<longrightarrow>
        df_current ! i ! j = df ! i ! j)"
proof -
  let ?cs = "take (length counties - 11) counties"
  from assms(3) obtain ratio where
    ratio: "ratio_loop np data ?cs = Inr ratio" and
    df: "df = map (map (astype_int np)) data" and
    dfc: "df_current = map (map (\<lambda>x. astype_int np (np_round np x))) (scale_columns np data ratio)"
    by (auto simp: rescale_def split: sum.splits if_splits)
  have len: "length ratio = length data"
    and rows: "\<forall>i < length data. ratio_row np (data ! i) ?cs (np_one np) = Inr (ratio ! i)"
    using ratio_loop_nth[OF ratio] by simp_all
  note sc = scale_columns_nth[OF assms(1) len assms(4,5,6), of np]
  have row_len: "length (data ! i) = n"
    using assms(1,4) by simp
  have cur: "df_current ! i ! j =
      astype_int np (np_round np (np_multiply np (data ! i ! j) (ratio ! i)))"
    unfolding dfc using sc assms(4,6) by simp
  have raw: "df ! i ! j = astype_int np (data ! i ! j)"
    unfolding df using assms(4,6) row_len by simp
  have one: "ratio ! i = np_one np" if "\<not> matched np (data ! i) counties"
    using ratio_row_unmatched[OF not_matched[OF that]] rows assms(4) by blast
  have "df_current ! i ! j = df ! i ! j"
    if "\<not> matched np (data ! i) counties"
      "np_multiply np (data ! i ! j) (np_one np) = data ! i ! j"
      "np_round np (data ! i ! j) = data ! i ! j"
    unfolding cur raw one[OF that(1)] that(2) that(3) ..
  then show ?thesis
    using ratio cur one by blast
qed

text \<open>The hypotheses of C3 hold for a table of two regions, the first with a reference
  row (ratio \<open>110/100\<close>), the second without one, under exact arithmetic.\<close>

theorem rescale_rounds_products_witness:
  "rescale exact data_example counties_example =
     Inr ([[1001, 100, 40, 60], [1002, 50, 20, 30]], [[1001, 110, 44, 66], [1002, 50, 20, 30]]) \<and>
   matched exact (data_example ! 0) counties_example \<and>
   \<not> matched exact (data_example ! 1) counties_example \<and>
   (\<exists>ratio. ratio_loop exact data_example (take (length counties_example - 11) counties_example) =
        Inr ratio \<and>
      [[1001, 110, 44, 66], [1002, 50, 20, 30]] ! 0 ! 2 =
        astype_int exact (np_round exact (np_multiply exact (data_example ! 0 ! 2) (ratio ! 0)))) \<and>
   [[1001, 110, 44, 66], [1002, 50, 20, 30 :: int]] ! 1 ! 2 =
     [[1001, 100, 40, 60], [1002, 50, 20, 30 :: int]] ! 1 ! 2"
proof -
  let ?df = "[[1001, 100, 40, 60], [1002, 50, 20, 30 :: int]]"
  let ?dfc = "[[1001, 110, 44, 66], [1002, 50, 20, 30 :: int]]"
  have r: "rescale exact data_example counties_example = Inr (?df, ?dfc)"
    by code_simp
  have m: "matched exact (data_example ! 0) counties_example"
    "\<not> matched exact (data_example ! 1) counties_example"
    by code_simp+
  have wf: "\<forall>r \<in> set data_example. length r = 4"
    by (simp add: data_example_def)
  have n: "(2::nat) \<le> 4" by simp
  have i0: "0 < length data_example" and i1: "1 < length data_example"
    by (simp_all add: data_example_def)
  have j: "(1::nat) \<le> 2" "(2::nat) < 4" by simp_all
  have T0: "\<exists>ratio. ratio_loop exact data_example (take (length counties_example - 11) counties_example) =
        Inr ratio \<and>
      ?dfc ! 0 ! 2 =
        astype_int exact (np_round exact (np_multiply exact (data_example ! 0 ! 2) (ratio ! 0)))"
    using rescale_rounds_products[OF wf n r i0 j] by blast
  have v: "np_multiply exact (data_example ! 1 ! 2) (np_one exact) = data_example ! 1 ! 2"
    "np_round exact (data_example ! 1 ! 2) = data_example ! 1 ! 2"
    by (simp_all add: exact_def data_example_def)
  have T1: "?dfc ! 1 ! 2 = ?df ! 1 ! 2"
    using rescale_rounds_products[OF wf n r i1 j] m(2) v by blast
  show ?thesis
    using r m T0 T1 by blast
qed

section \<open>Proofs: check_dir and write_dataframe\<close>

lemma outForm_supported:
  "file_type \<notin> supported_formats \<Longrightarrow> map_of (outForm param_dict) file_type = None"
  by (simp add: outForm_def supported_formats_def)

lemma outForm_cases:
  assumes "file_type \<in> supported_formats"
  obtains "file_type = ''json''"
      "map_of (outForm param_dict) file_type = Some (''.json'', [(''orient'', PyStr ''records'')])"
    | "file_type = ''json_timeasstring''"
      "map_of (outForm param_dict) file_type = Some (''.json'', [(''orient'', PyStr ''records'')])"
    | "file_type = ''hdf5''"
      "map_of (outForm param_dict) file_type = Some (''.h5'', [(''key'', PyStr ''data'')])"
    | "file_type = ''txt''"
      "map_of (outForm param_dict) file_type = Some (''.txt'', param_dict)"
  using assms by (auto simp: outForm_def supported_formats_def)

text \<open>
  Claim C6.  For a \<open>file_type\<close> that is none of json, json_timeasstring, hdf5 and txt,
  \<open>write_dataframe\<close> raises the \<open>ValueError\<close> whose message names the requested format and
  the four allowed ones, and the file system after the call is the one before it.
\<close>

theorem write_dataframe_unsupported_format:
  assumes "file_type \<notin> supported_formats"
  shows "write_dataframe fs df directory file_prefix file_type param_dict =
    (Inl (ValueError (''Error: The file format: '' @ file_type @
            '' does not exist. Use json, json_timeasstring, hdf5 or txt.'')), fs)"
  using outForm_supported[OF assms] by (simp add: write_dataframe_def)

theorem write_dataframe_unsupported_format_witness:
  "''xml'' \<notin> supported_formats \<and>
   write_dataframe fs_empty df_cases [''data'', ''Germany''] ''cases'' ''xml'' [] =
    (Inl (ValueError
       ''Error: The file format: xml does not exist. Use json, json_timeasstring, hdf5 or txt.''),
     fs_empty)"
proof -
  have h: "''xml'' \<notin> supported_formats"
    by (simp add: supported_formats_def)
  show ?thesis
    using write_dataframe_unsupported_format[OF h, of fs_empty df_cases "[''data'', ''Germany'']" "''cases''" "[]"] h
    by simp
qed

lemma write_file_dirs: "write_file fs p c = Inr fs' \<Longrightarrow> dirs fs' = dirs fs"
  by (auto simp: write_file_def split: if_splits)

lemma write_file_result:
  "write_file fs p c =
    (if p \<noteq> [] \<and> is_dir fs (butlast p) \<and> \<not> is_dir fs p
     then Inr (fs\<lparr>files := (p, c) # filter (\<lambda>f. fst f \<noteq> p) (files fs)\<rparr>) else Inl OSError)"
  by (simp add: write_file_def)

lemma write_dataframe_dirs:
  "dirs (snd (write_dataframe fs df directory file_prefix file_type param_dict)) = dirs fs"
  by (auto simp: write_dataframe_def Let_def write_file_result
      split: option.splits sum.splits prod.splits)

lemma write_dataframe_missing_dir:
  assumes "\<not> is_dir fs directory"
  shows "snd (write_dataframe fs df directory file_prefix file_type param_dict) = fs"
    and "\<exists>e. fst (write_dataframe fs df directory file_prefix file_type param_dict) = Inl e"
  using assms
  by (auto simp: write_dataframe_def Let_def write_file_result path_join_def outForm_def
      split: option.splits sum.splits prod.splits)

lemma ancestors_self: "p \<noteq> [] \<Longrightarrow> p \<in> set (ancestors p)"
proof -
  assume "p \<noteq> []"
  then have "length p \<in> set [1..<Suc (length p)]" by (cases p) auto
  then have "take (length p) p \<in> set (ancestors p)"
    unfolding ancestors_def by (metis imageI set_map)
  then show ?thesis by simp
qed

lemma os_makedirs_creates:
  assumes "os_makedirs fs p = Inr fs'" "q \<in> set (ancestors p)"
  shows "is_dir fs' q"
  using assms by (auto simp: os_makedirs_def is_dir_def split: if_splits)

lemma check_dir_creates:
  assumes "check_dir fs directory = Inr fs'" "\<not> is_file fs directory"
  shows "is_dir fs' directory"
proof (cases "path_exists fs directory")
  case True
  then show ?thesis using assms by (simp add: check_dir_def path_exists_def)
next
  case False
  then have mk: "os_makedirs fs directory = Inr fs'"
    using assms(1) by (simp add: check_dir_def)
  have "directory \<noteq> []"
    using False by (auto simp: path_exists_def is_dir_def)
  then show ?thesis
    using os_makedirs_creates[OF mk] ancestors_self by blast
qed

lemma check_dir_parents:
  assumes "check_dir fs directory = Inr fs'" "\<not> path_exists fs directory"
    "q \<in> set (ancestors directory)"
  shows "is_dir fs' q"
  using assms os_makedirs_creates by (simp add: check_dir_def)

lemma write_dataframe_writes:
  assumes "file_type \<in> supported_formats" "is_dir fs directory"
    "map_of (outForm param_dict) file_type = Some (ending, spec)"
    "\<not> is_dir fs (path_join directory (file_prefix @ ending))"
    "file_type = ''json_timeasstring'' \<longrightarrow> (\<exists>df'. coerce_dates df = Inr df')"
  shows "\<exists>df' fs'. write_dataframe fs df directory file_prefix file_type param_dict = (Inr df', fs') \<and>
     is_file fs' (path_join directory (file_prefix @ ending))"
  using assms
  by (auto simp: write_dataframe_def Let_def write_file_result path_join_def is_file_def
      supported_formats_def)

text \<open>
  Claim C7, as stated, fails: \<open>write_dataframe\<close> has no call of \<open>check_dir\<close> or
  \<open>os.makedirs\<close>.  With a supported format and a directory that does not exist, the
  write raises \<open>OSError\<close> and the directory still does not exist afterwards.
\<close>

theorem write_dataframe_creates_no_directory:
  "''json'' \<in> supported_formats \<and>
   \<not> path_exists fs_empty [''data'', ''Germany''] \<and>
   fst (write_dataframe fs_empty df_cases [''data'', ''Germany''] ''cases'' ''json'' []) = Inl OSError \<and>
   \<not> is_dir (snd (write_dataframe fs_empty df_cases [''data'', ''Germany''] ''cases'' ''json'' []))
       [''data'', ''Germany'']"
  by (simp add: supported_formats_def path_exists_def is_dir_def is_file_def fs_empty_def
      write_dataframe_def outForm_def path_join_def write_file_def)

text \<open>
  Claim C7, amended.  Creating the directory is the work of \<open>check_dir\<close>, which the callers
  run before \<open>write_dataframe\<close>:
  \<^item> \<open>write_dataframe\<close> never changes the directories; when the target directory does not
    exist it raises and leaves the file system as it was;
  \<^item> a \<open>check_dir\<close> that returns leaves the directory in place (unless a regular file has
    its name), and when nothing had the name, every directory above it as well;
  \<^item> with a supported format and the directory in place, \<open>write_dataframe\<close> writes the
    file (provided the date coercion of json_timeasstring does not raise, and the file's
    path is not a directory).
\<close>

theorem check_dir_creates_write_dataframe_writes:
  "dirs (snd (write_dataframe fs df directory file_prefix file_type param_dict)) = dirs fs \<and>
   (\<not> is_dir fs directory \<longrightarrow>
      snd (write_dataframe fs df directory file_prefix file_type param_dict) = fs \<and>
      (\<exists>e. fst (write_dataframe fs df directory file_prefix file_type param_dict) = Inl e)) \<and>
   (check_dir fs directory = Inr fs' \<and> \<not> is_file fs directory \<longrightarrow> is_dir fs' directory) \<and>
   (check_dir fs directory = Inr fs' \<and> \<not> path_exists fs directory \<longrightarrow>
      (\<forall>q \<in> set (ancestors directory). is_dir fs' q)) \<and>
   (file_type \<in> supported_formats \<and> is_dir fs' directory \<and>
    map_of (outForm param_dict) file_type = Some (ending, spec) \<and>
    \<not> is_dir fs' (path_join directory (file_prefix @ ending)) \<and>
    (file_type = ''json_timeasstring'' \<longrightarrow> (\<exists>df'. coerce_dates df = Inr df')) \<longrightarrow>
      (\<exists>df' fs''. write_dataframe fs' df directory file_prefix file_type param_dict = (Inr df', fs'') \<and>
         is_file fs'' (path_join directory (file_prefix @ ending))))"
proof (intro conjI impI ballI)
  show "dirs (snd (write_dataframe fs df directory file_prefix file_type param_dict)) = dirs fs"
    by (rule write_dataframe_dirs)
next
  assume "\<not> is_dir fs directory"
  then show "snd (write_dataframe fs df directory file_prefix file_type param_dict) = fs"
    by (rule write_dataframe_missing_dir)
next
  assume "\<not> is_dir fs directory"
  then show "\<exists>e. fst (write_dataframe fs df directory file_prefix file_type param_dict) = Inl e"
    by (rule write_dataframe_missing_dir)
next
  assume "check_dir fs directory = Inr fs' \<and> \<not> is_file fs directory"
  then show "is_dir fs' directory"
    using check_dir_creates by blast
next
  fix q
  assume "check_dir fs directory = Inr fs' \<and> \<not> path_exists fs directory"
    and "q \<in> set (ancestors directory)"
  then show "is_dir fs' q"
    using check_dir_parents by blast
next
  assume "file_type \<in> supported_formats \<and> is_dir fs' directory \<and>
    map_of (outForm param_dict) file_type = Some (ending, spec) \<and>
    \<not> is_dir fs' (path_join directory (file_prefix @ ending)) \<and>
    (file_type = ''json_timeasstring'' \<longrightarrow> (\<exists>df'. coerce_dates df = Inr df'))"
  then show "\<exists>df' fs''. write_dataframe fs' df directory file_prefix file_type param_dict = (Inr df', fs'') \<and>
      is_file fs'' (path_join directory (file_prefix @ ending))"
    using write_dataframe_writes by blast
qed

text \<open>The amended claim at work: on the empty file system \<open>write_dataframe\<close> fails,
  \<open>check_dir\<close> creates \<open>data\<close> and \<open>data/Germany\<close>, and the write then succeeds.\<close>

theorem check_dir_creates_write_dataframe_writes_witness:
  "\<not> is_dir fs_empty [''data'', ''Germany''] \<and>
   snd (write_dataframe fs_empty df_cases [''data'', ''Germany''] ''cases'' ''json'' []) = fs_empty \<and>
   (\<exists>fs'. check_dir fs_empty [''data'', ''Germany''] = Inr fs' \<and>
      is_dir fs' [''data''] \<and> is_dir fs' [''data'', ''Germany''] \<and>
      (\<exists>df' fs''. write_dataframe fs' df_cases [''data'', ''Germany''] ''cases'' ''json'' [] = (Inr df', fs'') \<and>
         is_file fs'' [''data'', ''Germany'', ''cases.json'']))"
proof -
  let ?d = "[''data'', ''Germany'']"
  let ?fs' = "\<lparr>dirs = [[''data''], ?d], files = []\<rparr>"
  note T = check_dir_creates_write_dataframe_writes[of fs_empty df_cases ?d "''cases''" "''json''" "[]"
      ?fs' "''.json''" "[(''orient'', PyStr ''records'')]"]
  have nd: "\<not> is_dir fs_empty ?d"
    by (simp add: is_dir_def fs_empty_def)
  have nf: "\<not> is_file fs_empty ?d" "\<not> path_exists fs_empty ?d"
    by (simp_all add: is_file_def path_exists_def is_dir_def fs_empty_def)
  have cd: "check_dir fs_empty ?d = Inr ?fs'"
    by (simp add: check_dir_def os_makedirs_def path_exists_def is_dir_def is_file_def
        fs_empty_def ancestors_def upt_rec)
  have anc: "[''data''] \<in> set (ancestors ?d)"
    by (simp add: ancestors_def upt_rec)
  have sup: "''json'' \<in> supported_formats"
    "map_of (outForm []) ''json'' = Some (''.json'', [(''orient'', PyStr ''records'')])"
    "\<not> is_dir ?fs' (path_join ?d (''cases'' @ ''.json''))"
    by (simp_all add: supported_formats_def outForm_def is_dir_def path_join_def)
  have 1: "snd (write_dataframe fs_empty df_cases ?d ''cases'' ''json'' []) = fs_empty"
    using T nd by blast
  have 2: "is_dir ?fs' ?d"
    using T cd nf by blast
  have 3: "is_dir ?fs' [''data'']"
    using T cd nf anc by blast
  have 4: "\<exists>df' fs''. write_dataframe ?fs' df_cases ?d ''cases'' ''json'' [] = (Inr df', fs'') \<and>
      is_file fs'' (path_join ?d (''cases'' @ ''.json''))"
    using T sup 2 by blast
  show ?thesis
    using nd 1 cd 2 3 4 by (simp add: path_join_def)
qed

lemma coerce_dates_no_Date:
  "''Date'' \<notin> fst ` set df \<Longrightarrow> coerce_dates df = Inr df"
  by (simp add: coerce_dates_def EngEng_date_def)

lemma map_of_set_column:
  "map_of df name = Some c \<Longrightarrow> map_of (set_column name c' df) name = Some c'"
  by (induction df) (auto simp: set_column_def)

lemma fst_set_column: "fst ` set (set_column name c df) = fst ` set df"
  by (induction df) (auto simp: set_column_def)

lemma coerce_dates_strings:
  assumes "map_of df ''Date'' = Some (Object (OStr s # vs))"
  shows "coerce_dates df = Inr df"
  using assms by (simp add: coerce_dates_def)

lemma coerce_dates_datetimes:
  assumes "map_of df ''Date'' = Some (Datetime64 (t # ts))"
  shows "coerce_dates df =
    Inr (set_column ''Date''
      (Object (map (\<lambda>t. case t of None \<Rightarrow> ONaN | Some d \<Rightarrow> OStr (strftime_Ymd d)) (t # ts))) df)"
proof -
  have "''Date'' \<in> fst ` set df"
    using map_of_SomeD[OF assms] by force
  then show ?thesis
    using assms by (simp add: coerce_dates_def EngEng_date_def)
qed

lemma coerce_dates_twice:
  assumes "map_of df ''Date'' = Some (Datetime64 (Some d # ts))"
    and "coerce_dates df = Inr df'"
  shows "coerce_dates df' = Inr df'"
proof -
  have "df' = set_column ''Date''
      (Object (OStr (strftime_Ymd d) #
         map (\<lambda>t. case t of None \<Rightarrow> ONaN | Some d \<Rightarrow> OStr (strftime_Ymd d)) ts)) df"
    using coerce_dates_datetimes[OF assms(1)] assms(2) by simp
  then show ?thesis
    using map_of_set_column[OF assms(1)] coerce_dates_strings by blast
qed

text \<open>
  Claim C8 at a frame with a Date column and no rows: the coercion indexes the first value
  of the column, which raises \<open>IndexError\<close>, and \<open>write_dataframe\<close> writes nothing; the
  json format, which differs by the coercion only, writes the same frame.
\<close>

theorem write_dataframe_timeasstring_no_rows:
  "coerce_dates df_no_rows = Inl IndexError \<and>
   write_dataframe fs df_no_rows directory file_prefix ''json_timeasstring'' param_dict =
     (Inl IndexError, fs) \<and>
   fst (write_dataframe fs_empty df_no_rows [] file_prefix ''json'' param_dict) = Inr df_no_rows"
  by (simp add: coerce_dates_def EngEng_date_def df_no_rows_def write_dataframe_def outForm_def
      write_file_def is_dir_def path_join_def fs_empty_def)


section \<open>Proofs: download_file and loadCsv\<close>

lemma upt_1_Suc_Suc: "[1..<Suc (Suc n)] = 1 # map Suc [1..<Suc n]"
proof -
  have "[1..<Suc (Suc n)] = 1 # [Suc 1..<Suc (Suc n)]"
    by (simp add: upt_rec)
  also have "[Suc 1..<Suc (Suc n)] = map Suc [1..<Suc n]"
    by (simp only: map_Suc_upt)
  finally show ?thesis .
qed

lemma min_step:
  assumes "0 \<le> (c::int)"
  shows "min (min (p + c) fs + int k * c) fs = min (p + int (Suc k) * c) fs"
proof -
  have "0 \<le> int k * c" using assms by simp
  then show ?thesis by (simp add: min_def algebra_simps)
qed

lemma progress_loop_trace:
  assumes "0 \<le> c" "file_size \<noteq> 0"
  shows "progress_loop (PyInt c) file_size record_progress chunks acc progress trace =
    (Inr (acc @ concat chunks),
     trace @ map (\<lambda>k. of_int (min (progress + int k * c) file_size) / of_int file_size)
               [1..<Suc (length chunks)])"
proof (induction chunks arbitrary: acc progress trace)
  case Nil
  then show ?case by simp
next
  case (Cons chunk chunks)
  let ?p = "min (progress + c) file_size"
  let ?f = "\<lambda>p k. (of_int (min (p + int k * c) file_size) :: rat) / of_int file_size"
  have step: "progress_loop (PyInt c) file_size record_progress (chunk # chunks) acc progress trace =
      progress_loop (PyInt c) file_size record_progress chunks (acc @ chunk) ?p
        (trace @ [of_int ?p / of_int file_size])"
    using assms(2) by (simp add: Let_def record_progress_def)
  have "map (?f progress) [1..<Suc (length (chunk # chunks))] =
        ?f progress 1 # map (\<lambda>k. ?f progress (Suc k)) [1..<Suc (length chunks)]"
    by (simp only: length_Cons upt_1_Suc_Suc list.map map_map o_def)
  also have "\<dots> = of_int ?p / of_int file_size # map (?f ?p) [1..<Suc (length chunks)]"
    by (simp only: min_step[OF assms(1)]) simp
  finally have tr: "map (?f progress) [1..<Suc (length (chunk # chunks))] =
      of_int ?p / of_int file_size # map (?f ?p) [1..<Suc (length chunks)]" .
  show ?case
    unfolding step Cons.IH tr by simp
qed

lemma sorted_map_upt:
  assumes "\<And>i j. i \<le> j \<Longrightarrow> f i \<le> (f j :: rat)"
  shows "sorted (map f [a..<b])"
proof -
  have "sorted_wrt (\<lambda>x y. f x \<le> f y) [a..<b]"
    using sorted_upt[of a b] assms
    by (auto intro: sorted_wrt_mono_rel[where P = "(\<le>)"])
  then show ?thesis
    by (simp add: sorted_map)
qed

lemma fraction_bounds:
  assumes "0 \<le> (c::int)" "0 < fs"
  shows "0 \<le> (of_int (min (int k * c) fs) :: rat) / of_int fs"
    and "(of_int (min (int k * c) fs) :: rat) / of_int fs \<le> 1"
proof -
  have "0 \<le> min (int k * c) fs" using assms by simp
  then show "0 \<le> (of_int (min (int k * c) fs) :: rat) / of_int fs"
    using assms(2) by simp
  have "min (int k * c) fs \<le> fs" by simp
  then have "(of_int (min (int k * c) fs) :: rat) \<le> of_int fs"
    by (simp only: of_int_le_iff)
  then show "(of_int (min (int k * c) fs) :: rat) / of_int fs \<le> 1"
    using assms(2) by (simp add: divide_le_eq_1)
qed

lemma fraction_mono:
  assumes "0 \<le> (c::int)" "0 < fs" "i \<le> j"
  shows "(of_int (min (int i * c) fs) :: rat) / of_int fs \<le> of_int (min (int j * c) fs) / of_int fs"
proof -
  have "int i * c \<le> int j * c"
    using assms(1,3) by (simp add: mult_right_mono)
  then have "min (int i * c) fs \<le> min (int j * c) fs"
    by simp
  then have "(of_int (min (int i * c) fs) :: rat) \<le> of_int (min (int j * c) fs)"
    by (simp only: of_int_le_iff)
  then show ?thesis
    using assms(2) by (simp add: divide_right_mono)
qed

lemma progress_values_eq:
  assumes "requests_get w url = Inr req" and "status_code req = 200"
    and "content_length req = IntHeader file_size" and "0 < file_size" and "0 \<le> c"
  shows "progress_values w url encoding (PyInt c) timeout =
     map (\<lambda>k. of_int (min (int k * c) file_size) / of_int file_size)
       [1..<Suc (length (iter_content req (Some c)))]"
proof -
  have fs: "file_size \<noteq> 0" using assms(4) by simp
  show ?thesis
    using assms(1,2,3)
    by (simp add: progress_values_def download_file_def progress_loop_trace[OF assms(5) fs])
qed

text \<open>
  Claim C5, amended.  Let the response have status 200 and a positive content length, and
  let \<open>chunk_size\<close> be a non-negative integer.  Then the value passed after the \<open>k\<close>-th
  chunk is \<open>min(k * chunk_size, content_length) / content_length\<close>: the progress counts
  \<open>chunk_size\<close> for every chunk, whatever the chunk's length.  Every value passed lies in
  \<open>[0,1]\<close>, and the values are non-decreasing.
\<close>

theorem download_file_progress:
  assumes "requests_get w url = Inr req" and "status_code req = 200"
    and "content_length req = IntHeader file_size" and "0 < file_size" and "0 \<le> c"
  shows "progress_values w url encoding (PyInt c) timeout =
     map (\<lambda>k. of_int (min (int k * c) file_size) / of_int file_size)
       [1..<Suc (length (iter_content req (Some c)))] \<and>
     (\<forall>v \<in> set (progress_values w url encoding (PyInt c) timeout). 0 \<le> v \<and> v \<le> 1) \<and>
     sorted (progress_values w url encoding (PyInt c) timeout)"
proof -
  note eq = progress_values_eq[OF assms, of encoding timeout]
  have "\<forall>v \<in> set (progress_values w url encoding (PyInt c) timeout). 0 \<le> v \<and> v \<le> 1"
    unfolding eq using fraction_bounds[OF assms(5,4)] by auto
  moreover have "sorted (progress_values w url encoding (PyInt c) timeout)"
    unfolding eq using fraction_mono[OF assms(5,4)] by (rule sorted_map_upt)
  ultimately show ?thesis using eq by simp
qed

theorem download_file_progress_witness:
  "requests_get world_ok ''u'' = Inr gzip_response \<and> status_code gzip_response = 200 \<and>
   content_length gzip_response = IntHeader 40 \<and>
   progress_values world_ok ''u'' PyNone (PyInt 32) PyNone = [4 / 5, 1] \<and>
   sorted (progress_values world_ok ''u'' PyNone (PyInt 32) PyNone)"
proof -
  have h: "requests_get world_ok ''u'' = Inr gzip_response" "status_code gzip_response = 200"
    "content_length gzip_response = IntHeader 40"
    by (simp_all add: world_ok_def gzip_response_def)
  have n: "[1..<Suc (length (iter_content gzip_response (Some 32)))] = [1, 2]"
    by (simp add: gzip_response_def upt_rec)
  have v: "map (\<lambda>k. (of_int (min (int k * 32) 40) :: rat) / of_int 40) [1, 2] = [4 / 5, 1]"
    by simp
  show ?thesis
    using download_file_progress[OF h, of 32 PyNone PyNone, unfolded n v] h by simp
qed

text \<open>
  Claim C5, as stated, fails.  The server's content length is the number of bytes on the
  wire; the chunks that \<open>iter_content\<close> yields are decoded and may be longer.  With a
  content length of 40, a chunk size of 32 and chunks of 48 and 16 bytes, the values
  passed are \<open>4/5\<close> and \<open>1\<close>, while the bytes read so far give \<open>1\<close> and \<open>1\<close>.
\<close>

theorem download_file_progress_not_bytes_read:
  "requests_get world_ok ''u'' = Inr gzip_response \<and> status_code gzip_response = 200 \<and>
   content_length gzip_response = IntHeader 40 \<and>
   progress_values world_ok ''u'' PyNone (PyInt 32) PyNone = [4 / 5, 1] \<and>
   spec_progress (iter_content gzip_response (Some 32)) 40 = [1, 1] \<and>
   progress_values world_ok ''u'' PyNone (PyInt 32) PyNone \<noteq>
     spec_progress (iter_content gzip_response (Some 32)) 40"
  by (simp add: world_ok_def gzip_response_def progress_values_def download_file_def
      record_progress_def spec_progress_def upt_rec Let_def)

lemma progress_loop_outcome:
  assumes "file_size \<noteq> 0"
  shows "fst (progress_loop chunk_size file_size f chunks acc progress st) = Inl TypeError \<or>
    (\<exists>buf. fst (progress_loop chunk_size file_size f chunks acc progress st) = Inr buf)"
proof (induction chunks arbitrary: acc progress st)
  case Nil
  then show ?case by simp
next
  case (Cons chunk chunks)
  show ?case
  proof (cases chunk_size)
    case (PyInt c)
    then show ?thesis
      using assms Cons.IH by (simp add: Let_def)
  qed simp_all
qed

lemma as_file_object_int: "as_file_object w (PyInt 1024) buf = Inl TypeError"
  by (simp add: as_file_object_def)

lemma download_file_swapped_arguments:
  assumes "requests_get w url = Inr req" and "status_code req = 200"
    and "content_length req = IntHeader n" and "0 < n"
  shows "fst (download_file w url (PyInt 1024) enc PyNone (Some f) st) = Inl TypeError"
proof -
  have n: "n \<noteq> 0" using assms(4) by simp
  show ?thesis
  proof (cases "iter_chunks req enc")
    case (Inl e)
    then have "e = TypeError"
      by (cases enc) auto
    then show ?thesis
      using assms(1,2,3) Inl by (simp add: download_file_def)
  next
    case (Inr chunks)
    obtain r st' where loop: "progress_loop enc n f chunks [] 0 st = (r, st')"
      by (cases "progress_loop enc n f chunks [] 0 st")
    then have "r = Inl TypeError \<or> (\<exists>buf. r = Inr buf)"
      using progress_loop_outcome[OF n, of enc f chunks "[]" 0 st] by simp
    then show ?thesis
      using assms(1,2,3) Inr loop by (auto simp: download_file_def as_file_object_int)
  qed
qed

lemma fill_defaults_Cons:
  "fill_defaults d (kv # dflt) =
     fill_defaults (if map_of d (fst kv) = None then d @ [kv] else d) dflt"
  by (simp add: fill_defaults_def)

lemma fill_defaults_keeps:
  "map_of d k = Some v \<Longrightarrow> map_of (fill_defaults d dflt) k = Some v"
proof (induction dflt arbitrary: d)
  case Nil
  then show ?case by (simp add: fill_defaults_def)
next
  case (Cons kv dflt)
  have "map_of (if map_of d (fst kv) = None then d @ [kv] else d) k = Some v"
    using Cons.prems by (simp add: map_add_Some_iff)
  then show ?case
    unfolding fill_defaults_Cons by (rule Cons.IH)
qed

lemma fill_defaults_fills:
  "k \<in> fst ` set dflt \<Longrightarrow> \<exists>v. map_of (fill_defaults d dflt) k = Some v"
proof (induction dflt arbitrary: d)
  case Nil
  then show ?case by simp
next
  case (Cons kv dflt)
  let ?d = "if map_of d (fst kv) = None then d @ [kv] else d"
  show ?case
  proof (cases "k = fst kv")
    case True
    have "\<exists>v. map_of ?d k = Some v"
    proof (cases "map_of d (fst kv)")
      case None
      then show ?thesis using True by (cases kv) (simp add: map_add_def)
    next
      case (Some v)
      then show ?thesis using True by simp
    qed
    then obtain v where "map_of ?d k = Some v" ..
    then show ?thesis
      unfolding fill_defaults_Cons using fill_defaults_keeps by blast
  next
    case False
    then have "k \<in> fst ` set dflt" using Cons.prems by auto
    then show ?thesis
      unfolding fill_defaults_Cons by (rule Cons.IH)
  qed
qed

lemma fill_defaults_encoding:
  "\<exists>enc. map_of (fill_defaults d
      [(''sep'', PyStr '',''), (''header'', PyInt 0), (''encoding'', encoding), (''dtype'', PyNone)])
      ''encoding'' = Some enc"
  by (rule fill_defaults_fills) simp

lemma loadCsv_dict:
  "fst (snd (loadCsv w shared targetFileName apiUrl extension param_dict encoding)) =
     fill_defaults (case param_dict of None \<Rightarrow> shared | Some d \<Rightarrow> d)
       [(''sep'', PyStr '',''), (''header'', PyInt 0), (''encoding'', encoding), (''dtype'', PyNone)]"
  by (simp add: loadCsv_def Let_def)

lemma loadCsv_shared:
  "snd (snd (loadCsv w shared targetFileName apiUrl extension param_dict encoding)) =
     (case param_dict of
        None \<Rightarrow> fill_defaults shared
          [(''sep'', PyStr '',''), (''header'', PyInt 0), (''encoding'', encoding), (''dtype'', PyNone)]
      | Some d \<Rightarrow> shared)"
  by (simp add: loadCsv_def Let_def split: option.split)

text \<open>
  Claim C4 at a download that succeeds.  \<open>loadCsv\<close> passes 1024 where \<open>download_file\<close>
  takes the encoding and the encoding where it takes the chunk size.  Whenever the server
  answers with status 200 and a positive content length, \<open>download_file\<close> raises
  \<open>TypeError\<close> (in \<open>iter_content\<close>, in the progress sum, or at last in
  \<open>str(file, encoding=1024)\<close>), which neither \<open>except\<close> clause of \<open>loadCsv\<close> catches: the
  call raises \<open>TypeError\<close> and returns no table, for every \<open>param_dict\<close> and encoding.
\<close>

theorem loadCsv_raises_TypeError_on_success:
  assumes "requests_get w (apiUrl @ targetFileName @ extension) = Inr req"
    and "status_code req = 200" and "content_length req = IntHeader n" and "0 < n"
  shows "fst (loadCsv w shared targetFileName apiUrl extension param_dict encoding) = Inl TypeError"
proof -
  let ?pd = "fill_defaults (case param_dict of None \<Rightarrow> shared | Some d \<Rightarrow> d)
       [(''sep'', PyStr '',''), (''header'', PyInt 0), (''encoding'', encoding), (''dtype'', PyNone)]"
  obtain enc where enc: "map_of ?pd ''encoding'' = Some enc"
    using fill_defaults_encoding by blast
  have "fst (download_file w (apiUrl @ targetFileName @ extension) (PyInt 1024) enc PyNone
          (Some record_progress) []) = Inl TypeError"
    using assms by (rule download_file_swapped_arguments)
  then show ?thesis
    using enc by (simp add: loadCsv_def Let_def)
qed

theorem loadCsv_raises_TypeError_on_success_witness:
  "requests_get world_ok (arcgis @ ''abc'' @ ''.csv'') = Inr gzip_response \<and>
   status_code gzip_response = 200 \<and> content_length gzip_response = IntHeader 40 \<and>
   fst (loadCsv world_ok [] ''abc'' arcgis ''.csv'' None PyNone) = Inl TypeError"
proof -
  have h: "requests_get world_ok (arcgis @ ''abc'' @ ''.csv'') = Inr gzip_response"
    "status_code gzip_response = 200" "content_length gzip_response = IntHeader 40" "(0::int) < 40"
    by (simp_all add: world_ok_def gzip_response_def)
  show ?thesis
    using loadCsv_raises_TypeError_on_success[OF h, of "[]" None PyNone] h by simp
qed

lemma loadCsv_fallback:
  assumes "requests_get w (apiUrl @ targetFileName @ extension) = Inl e"
    and "is_RequestException e"
  shows "fst (loadCsv w shared targetFileName apiUrl extension param_dict encoding) =
    (case read_csv_url w (apiUrl @ targetFileName @ extension)
            (fst (snd (loadCsv w shared targetFileName apiUrl extension param_dict encoding))) of
       Inl e' \<Rightarrow>
         if is_OSError e'
         then Inl (FileNotFoundError
                (''ERROR: URL '' @ (apiUrl @ targetFileName @ extension) @ '' could not be opened.''))
         else Inl e'
     | Inr df \<Rightarrow> Inr df)"
proof -
  let ?pd = "fill_defaults (case param_dict of None \<Rightarrow> shared | Some d \<Rightarrow> d)
       [(''sep'', PyStr '',''), (''header'', PyInt 0), (''encoding'', encoding), (''dtype'', PyNone)]"
  obtain enc where enc: "map_of ?pd ''encoding'' = Some enc"
    using fill_defaults_encoding by blast
  have "fst (download_file w (apiUrl @ targetFileName @ extension) (PyInt 1024) enc PyNone
          (Some record_progress) []) = Inl e"
    using assms(1) by (simp add: download_file_def)
  then show ?thesis
    using enc assms(2) unfolding loadCsv_dict by (simp add: loadCsv_def Let_def)
qed

lemma loadCsv_fallback_status:
  assumes "requests_get w (apiUrl @ targetFileName @ extension) = Inr req"
    and "status_code req \<noteq> 200"
  shows "fst (loadCsv w shared targetFileName apiUrl extension param_dict encoding) =
    (case read_csv_url w (apiUrl @ targetFileName @ extension)
            (fst (snd (loadCsv w shared targetFileName apiUrl extension param_dict encoding))) of
       Inl e' \<Rightarrow>
         if is_OSError e'
         then Inl (FileNotFoundError
                (''ERROR: URL '' @ (apiUrl @ targetFileName @ extension) @ '' could not be opened.''))
         else Inl e'
     | Inr df \<Rightarrow> Inr df)"
proof -
  let ?pd = "fill_defaults (case param_dict of None \<Rightarrow> shared | Some d \<Rightarrow> d)
       [(''sep'', PyStr '',''), (''header'', PyInt 0), (''encoding'', encoding), (''dtype'', PyNone)]"
  obtain enc where enc: "map_of ?pd ''encoding'' = Some enc"
    using fill_defaults_encoding by blast
  have "fst (download_file w (apiUrl @ targetFileName @ extension) (PyInt 1024) enc PyNone
          (Some record_progress) []) = Inl (RequestsHTTPError (status_code req))"
    using assms by (simp add: download_file_def)
  then show ?thesis
    using enc unfolding loadCsv_dict by (simp add: loadCsv_def Let_def)
qed

text \<open>
  Claim C9 at two successive calls.  The first call omits \<open>param_dict\<close> and passes
  \<open>encoding='latin1'\<close>; it stores the encoding in the shared default dictionary.  The
  second call passes nothing but the file name, and reads with \<open>encoding='latin1'\<close>, where
  the same call in a fresh process reads with \<open>encoding=None\<close>.  The first two equations
  hold for every behaviour of the network and of pandas; the last two show the difference
  in what \<open>loadCsv\<close> returns, for a server that cannot be reached and a \<open>read_csv\<close> whose
  frame shows the encoding it was given.
\<close>

theorem loadCsv_default_dict_shared:
  "fst (snd (loadCsv w (snd (snd (loadCsv w [] t1 arcgis ''.csv'' None (PyStr ''latin1''))))
                t2 arcgis ''.csv'' None PyNone)) =
     [(''sep'', PyStr '',''), (''header'', PyInt 0), (''encoding'', PyStr ''latin1''), (''dtype'', PyNone)] \<and>
   fst (snd (loadCsv w [] t2 arcgis ''.csv'' None PyNone)) =
     [(''sep'', PyStr '',''), (''header'', PyInt 0), (''encoding'', PyNone), (''dtype'', PyNone)] \<and>
   fst (loadCsv world_fallback
          (snd (snd (loadCsv world_fallback [] ''first'' arcgis ''.csv'' None (PyStr ''latin1''))))
          ''second'' arcgis ''.csv'' None PyNone) =
     Inr [(''encoding'', Object [OStr ''latin1''])] \<and>
   fst (loadCsv world_fallback [] ''second'' arcgis ''.csv'' None PyNone) =
     Inr [(''encoding'', Object [OOther ''None''])]"
proof -
  have s: "\<And>w t. snd (snd (loadCsv w [] t arcgis ''.csv'' None (PyStr ''latin1''))) =
     [(''sep'', PyStr '',''), (''header'', PyInt 0), (''encoding'', PyStr ''latin1''), (''dtype'', PyNone)]"
    by (simp add: loadCsv_shared fill_defaults_def)
  have rq: "\<And>u. requests_get world_fallback u = Inl RequestsConnectionError"
    by (simp add: world_fallback_def)
  have 1: "fst (snd (loadCsv w (snd (snd (loadCsv w [] t1 arcgis ''.csv'' None (PyStr ''latin1''))))
                t2 arcgis ''.csv'' None PyNone)) =
     [(''sep'', PyStr '',''), (''header'', PyInt 0), (''encoding'', PyStr ''latin1''), (''dtype'', PyNone)]"
    unfolding s by (simp add: loadCsv_dict fill_defaults_def)
  have 2: "fst (snd (loadCsv w [] t2 arcgis ''.csv'' None PyNone)) =
     [(''sep'', PyStr '',''), (''header'', PyInt 0), (''encoding'', PyNone), (''dtype'', PyNone)]"
    by (simp add: loadCsv_dict fill_defaults_def)
  have 3: "fst (loadCsv world_fallback
          (snd (snd (loadCsv world_fallback [] ''first'' arcgis ''.csv'' None (PyStr ''latin1''))))
          ''second'' arcgis ''.csv'' None PyNone) =
     Inr [(''encoding'', Object [OStr ''latin1''])]"
    unfolding s
    by (subst loadCsv_fallback[OF rq])
       (simp_all add: loadCsv_dict fill_defaults_def world_fallback_def)
  have 4: "fst (loadCsv world_fallback [] ''second'' arcgis ''.csv'' None PyNone) =
     Inr [(''encoding'', Object [OOther ''None''])]"
    by (subst loadCsv_fallback[OF rq])
       (simp_all add: loadCsv_dict fill_defaults_def world_fallback_def)
  show ?thesis using 1 2 3 4 by simp
qed

section \<open>Proofs: cleanData.py\<close>

lemma set_attr_keys: "map fst (set_attr name v ns) = map fst ns"
  by (induction ns) (auto simp: set_attr_def)

lemma parse_keys: "parse specs argv ns = Inr ns' \<Longrightarrow> map fst ns' = map fst ns"
proof (induction specs argv ns rule: parse.induct)
  case (1 specs ns)
  then show ?case by simp
next
  case (2 specs tok ns)
  then show ?case
    by (auto simp: set_attr_keys split: if_splits option.splits)
next
  case (3 specs tok v rest ns)
  show ?case
  proof (cases "find (\<lambda>a. tok \<in> set (option_strings a)) specs")
    case None
    then show ?thesis using "3.prems" by (simp split: if_splits)
  next
    case (Some a)
    show ?thesis
    proof (cases "takes_value a")
      case True
      then have "parse specs rest (set_attr (dest a) (PyStr v) ns) = Inr ns'"
        using "3.prems" Some by (simp split: if_splits)
      moreover have "\<not> (tok = ''-h'' \<or> tok = ''--help'')" "\<not> (take 1 v = ''-'' \<and> v \<noteq> ''-'')"
        using "3.prems" Some True by (auto split: if_splits)
      ultimately have "map fst ns' = map fst (set_attr (dest a) (PyStr v) ns)"
        using "3.IH"(1)[OF _ Some True] by blast
      then show ?thesis by (simp add: set_attr_keys)
    next
      case False
      then have "parse specs (v # rest) (set_attr (dest a) (PyInt 1) ns) = Inr ns'"
        using "3.prems" Some by (simp split: if_splits)
      moreover have "\<not> (tok = ''-h'' \<or> tok = ''--help'')"
        using "3.prems" by (auto split: if_splits)
      ultimately have "map fst ns' = map fst (set_attr (dest a) (PyInt 1) ns)"
        using "3.IH"(2)[OF _ Some False] by blast
      then show ?thesis by (simp add: set_attr_keys)
    qed
  qed
qed

lemma cli_dests:
  "map dest (cli_arguments out_path_default) =
     [''all'', ''rki'', ''john_hopkins'', ''spain'', ''population'', ''hdf5'', ''out_path'']"
  by (simp add: cli_arguments_def store_true_def dest_def)

lemma parse_args_keys:
  assumes "parse_args (cli_arguments out_path_default) argv = Inr ns"
  shows "map fst ns = [''all'', ''rki'', ''john_hopkins'', ''spain'', ''population'', ''hdf5'', ''out_path'']"
proof -
  have "map fst ns = map fst (map (\<lambda>a. (dest a, default_value a)) (cli_arguments out_path_default))"
    using assms unfolding parse_args_def by (rule parse_keys)
  then show ?thesis
    by (simp add: o_def cli_dests)
qed

lemma getattr_all_data:
  assumes "parse_args (cli_arguments out_path_default) argv = Inr ns"
  shows "getattr ns ''all_data'' = Inl (AttributeError ''all_data'')"
proof -
  have "''all_data'' \<notin> set (map fst ns)"
    unfolding parse_args_keys[OF assms] by simp
  then have "map_of ns ''all_data'' = None"
    by (simp add: map_of_eq_None_iff)
  then show ?thesis by (simp add: getattr_def)
qed

lemma cli_never_returns: "\<exists>e. cli out_path_default argv = Inl e"
proof (cases "parse_args (cli_arguments out_path_default) argv")
  case (Inl e)
  then show ?thesis by (simp add: cli_def)
next
  case (Inr ns)
  then show ?thesis by (simp add: cli_def getattr_all_data)
qed

text \<open>
  Claim C10.  The parser stores the flag \<open>-a\<close>/\<open>--all\<close> under the attribute \<open>all\<close>, and
  \<open>cli\<close> reads \<open>args.all_data\<close>.  So for every command line that the parser accepts, \<open>cli\<close>
  raises \<open>AttributeError\<close>, and so does \<open>main\<close>, with the file system untouched; for every
  command line whatsoever \<open>cli\<close> returns no list and \<open>main\<close> ends with an exception before
  \<open>clean_data\<close> is called, leaving the file system as it was.
\<close>

theorem cli_raises_AttributeError:
  "(parse_args (cli_arguments out_path_default) argv = Inr ns \<longrightarrow>
      cli out_path_default argv = Inl (AttributeError ''all_data'') \<and>
      main out_path_default argv fs = (Some (AttributeError ''all_data''), fs)) \<and>
   (\<exists>e. cli out_path_default argv = Inl e) \<and>
   (\<exists>e. main out_path_default argv fs = (Some e, fs))"
proof (intro conjI impI)
  assume ok: "parse_args (cli_arguments out_path_default) argv = Inr ns"
  then show c: "cli out_path_default argv = Inl (AttributeError ''all_data'')"
    by (simp add: cli_def getattr_all_data)
  show "main out_path_default argv fs = (Some (AttributeError ''all_data''), fs)"
    by (simp add: main_def c)
next
  show "\<exists>e. cli out_path_default argv = Inl e"
    by (rule cli_never_returns)
next
  obtain e where "cli out_path_default argv = Inl e"
    using cli_never_returns by blast
  then show "\<exists>e. main out_path_default argv fs = (Some e, fs)"
    by (simp add: main_def)
qed

theorem cli_raises_AttributeError_witness:
  "parse_args (cli_arguments ''data/pydata'') [''--all'', ''-o'', ''data''] =
     Inr [(''all'', PyInt 1), (''rki'', PyInt 0), (''john_hopkins'', PyInt 0), (''spain'', PyInt 0),
          (''population'', PyInt 0), (''hdf5'', PyInt 0), (''out_path'', PyStr ''data'')] \<and>
   cli ''data/pydata'' [''--all'', ''-o'', ''data''] = Inl (AttributeError ''all_data'') \<and>
   main ''data/pydata'' [''--all'', ''-o'', ''data''] fs_cleanup =
     (Some (AttributeError ''all_data''), fs_cleanup)"
proof -
  have p: "parse_args (cli_arguments ''data/pydata'') [''--all'', ''-o'', ''data''] =
     Inr [(''all'', PyInt 1), (''rki'', PyInt 0), (''john_hopkins'', PyInt 0), (''spain'', PyInt 0),
          (''population'', PyInt 0), (''hdf5'', PyInt 0), (''out_path'', PyStr ''data'')]"
    by (simp add: parse_args_def cli_arguments_def store_true_def dest_def set_attr_def)
  show ?thesis
    using cli_raises_AttributeError[of "''data/pydata''" "[''--all'', ''-o'', ''data'']" _ fs_cleanup] p
    by simp
qed

text \<open>With the list that \<open>cli\<close> was meant to return, \<open>clean_data\<close> does what the spec's
  cleanup example says: selecting the rki family deletes \<open>Germany/123_rki.json\<close>, keeps
  \<open>Germany/other.json\<close> and, the directory not being empty, keeps the directory.\<close>

lemma clean_data_rki_example:
  "clean_data (PyInt 0) (PyInt 1) (PyInt 0) (PyInt 0) (PyInt 0) (PyInt 0) [''data''] fs_cleanup =
     (None, \<lparr>dirs = [[''data''], [''data'', ''Germany'']],
              files = [([''data'', ''Germany'', ''other.json''], Json [] [])]\<rparr>)"
  by code_simp

end
